theory Spec2Isabelle
  imports Main
begin

section \<open>Python values and text\<close>

text \<open>
  Strings are \<^typ>\<open>string\<close>. \<open>str_int\<close> is Python's \<open>str\<close> on an \<open>int\<close>, as an
  f-string and the csv writer apply it.
\<close>

definition digit_char :: "nat \<Rightarrow> char" where
  "digit_char n = ''0123456789'' ! n"

fun str_nat :: "nat \<Rightarrow> string" where
  "str_nat n = (if n < 10 then [digit_char n] else str_nat (n div 10) @ [digit_char (n mod 10)])"

declare str_nat.simps [simp del]

definition str_int :: "int \<Rightarrow> string" where
  "str_int i = (if i < 0 then CHR ''-'' # str_nat (nat (- i)) else str_nat (nat i))"

text \<open>
  Python floats are outside this embedding. A duration is a value of a type \<open>'d\<close>, and
  the four operations the reporter applies to durations are passed in: \<open>round(x, 2)\<close>,
  the \<open>0\<close> that \<open>sum\<close> starts from, \<open>+\<close>, and \<open>str\<close> as the csv writer applies it.
\<close>

record 'd float_ops =
  round2 :: "'d \<Rightarrow> 'd"
  fzero :: "'d"
  fadd :: "'d \<Rightarrow> 'd \<Rightarrow> 'd"
  frepr :: "'d \<Rightarrow> string"

section \<open>utils/csv_reporter.py\<close>

text \<open>
  The value under 'Step Number': the \<open>int\<close> that \<open>add_step\<close> is given, or the
  empty string that \<open>add_summary\<close> writes.
\<close>

datatype cell = IntCell int | StrCell string

text \<open>One entry of \<open>self.steps\<close>: a dict with the six keys of \<open>self.headers\<close>.\<close>

record 'd step =
  step_number :: cell
  step_name :: string
  status :: string
  duration :: 'd
  details :: string
  error_message :: string

record 'd reporter =
  report_name :: string
  reports_dir :: string
  csv_file :: string
  headers :: "string list"
  steps :: "'d step list"

definition add_step ::
  "'d float_ops \<Rightarrow> 'd reporter \<Rightarrow> int \<Rightarrow> string \<Rightarrow> string \<Rightarrow> 'd \<Rightarrow> string \<Rightarrow> string \<Rightarrow> 'd reporter"
where
  "add_step fo r n nm st du de er =
     (let step = \<lparr>step_number = IntCell n, step_name = nm, status = st,
                  duration = round2 fo du, details = de, error_message = er\<rparr>
      in r\<lparr>steps := steps r @ [step]\<rparr>)"

definition add_summary :: "'d float_ops \<Rightarrow> 'd reporter \<Rightarrow> 'd reporter" where
  "add_summary fo r =
     (let total_steps = int (length (steps r));
          passed_steps = int (length (filter (\<lambda>s. status s = ''SUCCESS'') (steps r)));
          failed_steps = total_steps - passed_steps;
          total_duration = foldl (fadd fo) (fzero fo) (map duration (steps r));
          summary = \<lparr>step_number = StrCell '''', step_name = ''SUMMARY'',
                     status = (if failed_steps = 0 then ''PASSED'' else ''FAILED''),
                     duration = round2 fo total_duration,
                     details = ''Total: '' @ str_int total_steps @ '', Passed: ''
                               @ str_int passed_steps @ '', Failed: '' @ str_int failed_steps,
                     error_message = ''''\<rparr>
      in r\<lparr>steps := steps r @ [summary]\<rparr>)"

text \<open>A run of calls of \<open>add_step\<close>, in call order, each with its six arguments.\<close>

type_synonym 'd step_call = "int \<times> string \<times> string \<times> 'd \<times> string \<times> string"

fun add_steps :: "'d float_ops \<Rightarrow> 'd reporter \<Rightarrow> 'd step_call list \<Rightarrow> 'd reporter" where
  "add_steps fo r [] = r"
| "add_steps fo r ((n, nm, st, du, de, er) # cs) = add_steps fo (add_step fo r n nm st du de er) cs"

definition step_of_call :: "'d float_ops \<Rightarrow> 'd step_call \<Rightarrow> 'd step" where
  "step_of_call fo c =
     (case c of (n, nm, st, du, de, er) \<Rightarrow>
        \<lparr>step_number = IntCell n, step_name = nm, status = st,
         duration = round2 fo du, details = de, error_message = er\<rparr>)"

text \<open>Durations as whole hundredths of a second, for evaluating the reporter on examples.\<close>

definition centi_ops :: "int float_ops" where
  "centi_ops = \<lparr>round2 = (\<lambda>x. x), fzero = 0, fadd = (\<lambda>a b. a + b), frepr = str_int\<rparr>"

definition empty_reporter :: "int reporter" where
  "empty_reporter = \<lparr>report_name = ''r'', reports_dir = ''reports'',
     csv_file = ''reports/r_20240101_000000.csv'',
     headers = [''Step Number'', ''Step Name'', ''Status'', ''Duration (seconds)'',
                ''Details'', ''Error Message''],
     steps = []\<rparr>"

text \<open>Two small reports: two SUCCESS steps; one SUCCESS step followed by a FAILED one.\<close>

definition passed_report :: "int reporter" where
  "passed_report = add_steps centi_ops empty_reporter
     [(0, ''User Registration'', ''SUCCESS'', 120, ''ok'', ''''),
      (1, ''Logout After Registration'', ''SUCCESS'', 35, ''Logged out'', '''')]"

definition failed_report :: "int reporter" where
  "failed_report = add_steps centi_ops empty_reporter
     [(0, ''User Registration'', ''SUCCESS'', 120, ''ok'', ''''),
      (1, ''Logout After Registration'', ''FAILED'', 35, ''Failed to logout after registration'', ''Logout failed'')]"

text \<open>
  \<open>datetime.now()\<close> is an input. \<open>strftime_stamp\<close> is
  \<open>strftime('%Y%m%d_%H%M%S')\<close>: every field zero-padded to its width, the
  microseconds left out. (Before the year 1000 the width of \<open>%Y\<close> depends on the
  platform; \<open>valid_datetime\<close> leaves those years out.)
\<close>

record datetime =
  year :: nat
  month :: nat
  day :: nat
  hour :: nat
  minute :: nat
  second :: nat
  microsecond :: nat

definition valid_datetime :: "datetime \<Rightarrow> bool" where
  "valid_datetime d =
     (1000 \<le> year d \<and> year d \<le> 9999 \<and> 1 \<le> month d \<and> month d \<le> 12
      \<and> 1 \<le> day d \<and> day d \<le> 31 \<and> hour d < 24 \<and> minute d < 60 \<and> second d < 60
      \<and> microsecond d < 1000000)"

definition zpad :: "nat \<Rightarrow> nat \<Rightarrow> string" where
  "zpad w n = replicate (w - length (str_nat n)) CHR ''0'' @ str_nat n"

definition strftime_stamp :: "datetime \<Rightarrow> string" where
  "strftime_stamp d =
     zpad 4 (year d) @ zpad 2 (month d) @ zpad 2 (day d) @ ''_''
     @ zpad 2 (hour d) @ zpad 2 (minute d) @ zpad 2 (second d)"

text \<open>\<open>os.path.join\<close> of two components (posixpath).\<close>

definition path_join :: "string \<Rightarrow> string \<Rightarrow> string" where
  "path_join a b =
     (if b \<noteq> [] \<and> hd b = CHR ''/'' then b
      else if a = [] \<or> last a = CHR ''/'' then a @ b
      else a @ ''/'' @ b)"

text \<open>
  \<open>CSVReporter.__init__\<close>. \<open>root\<close> is the directory two levels above the module's
  file; \<open>now\<close> is what \<open>datetime.now()\<close> returns.
\<close>

definition CSVReporter_init :: "string \<Rightarrow> datetime \<Rightarrow> string \<Rightarrow> 'd reporter" where
  "CSVReporter_init root now name =
     (let dir = path_join root ''reports'';
          timestamp = strftime_stamp now
      in \<lparr>report_name = name, reports_dir = dir,
          csv_file = path_join dir (name @ ''_'' @ timestamp @ ''.csv''),
          headers = [''Step Number'', ''Step Name'', ''Status'', ''Duration (seconds)'',
                     ''Details'', ''Error Message''],
          steps = []\<rparr>)"

definition same_second :: "datetime \<Rightarrow> datetime \<Rightarrow> bool" where
  "same_second a b =
     (year a = year b \<and> month a = month b \<and> day a = day b
      \<and> hour a = hour b \<and> minute a = minute b \<and> second a = second b)"

text \<open>Two starts of a run within one second, half a second apart, and one a second later.\<close>

definition run_start_a :: datetime where
  "run_start_a = \<lparr>year = 2024, month = 5, day = 17, hour = 9, minute = 30, second = 7,
                   microsecond = 100000\<rparr>"

definition run_start_b :: datetime where
  "run_start_b = run_start_a\<lparr>microsecond := 600000\<rparr>"

definition run_start_c :: datetime where
  "run_start_c = run_start_a\<lparr>second := 8\<rparr>"

section \<open>Exceptions and the browser\<close>

text \<open>
  The exceptions that reach the test. \<open>str_exn\<close> is \<open>str(e)\<close>: the key's \<open>repr\<close>
  for a \<open>KeyError\<close>, the message for an \<open>AssertionError\<close>; for an exception of the
  driver the constructor carries the text that \<open>str(e)\<close> gives.
\<close>

datatype exn =
    KeyError string
  | AssertionError string
  | TimeoutException string
  | WebDriverException string
  | ValueError string
  | OSError string

fun str_exn :: "exn \<Rightarrow> string" where
  "str_exn (KeyError k) = CHR 0x27 # k @ [CHR 0x27]"
| "str_exn (AssertionError m) = m"
| "str_exn (TimeoutException m) = m"
| "str_exn (WebDriverException m) = m"
| "str_exn (ValueError m) = m"
| "str_exn (OSError m) = m"

text \<open>A dict of strings: \<open>d.get(k, default)\<close>, \<open>d.get(k)\<close> tested for truth, \<open>d[k]\<close>.\<close>

definition dict_get :: "(string \<rightharpoonup> string) \<Rightarrow> string \<Rightarrow> string \<Rightarrow> string" where
  "dict_get d k dflt = (case d k of None \<Rightarrow> dflt | Some v \<Rightarrow> v)"

definition dict_truthy :: "(string \<rightharpoonup> string) \<Rightarrow> string \<Rightarrow> bool" where
  "dict_truthy d k = (case d k of None \<Rightarrow> False | Some v \<Rightarrow> v \<noteq> [])"

definition dict_item :: "(string \<rightharpoonup> string) \<Rightarrow> string \<Rightarrow> exn + string" where
  "dict_item d k = (case d k of None \<Rightarrow> Inl (KeyError k) | Some v \<Rightarrow> Inr v)"

text \<open>
  A locator is the pair \<open>(By, value)\<close>. The page objects act on the browser through
  \<open>BasePage.send_keys\<close>, \<open>select_dropdown_by_text\<close> and \<open>click\<close>; each either
  completes or raises. The browser is an input: it tells for an action whether it raises.
\<close>

type_synonym locator = "string \<times> string"

datatype action =
    SendKeys locator string
  | SelectDropdownByText locator string
  | Click locator

type_synonym browser = "action \<Rightarrow> exn option"

text \<open>
  A block of statements, each one call on the browser whose argument is evaluated first
  (\<open>Inl\<close>: the evaluation raises). The block stops at the first exception; the result
  is the calls made and the exception, if any.
\<close>

fun perform :: "browser \<Rightarrow> (exn + action) list \<Rightarrow> action list \<times> exn option" where
  "perform b [] = ([], None)"
| "perform b (Inl e # cs) = ([], Some e)"
| "perform b (Inr a # cs) =
     (case b a of
        Some e \<Rightarrow> ([a], Some e)
      | None \<Rightarrow> (case perform b cs of (tr, r) \<Rightarrow> (a # tr, r)))"

section \<open>pages/checkout_page.py\<close>

definition BILLING_FIRST_NAME :: locator where "BILLING_FIRST_NAME = (''id'', ''BillingNewAddress_FirstName'')"
definition BILLING_LAST_NAME :: locator where "BILLING_LAST_NAME = (''id'', ''BillingNewAddress_LastName'')"
definition BILLING_EMAIL :: locator where "BILLING_EMAIL = (''id'', ''BillingNewAddress_Email'')"
definition BILLING_COMPANY :: locator where "BILLING_COMPANY = (''id'', ''BillingNewAddress_Company'')"
definition BILLING_COUNTRY :: locator where "BILLING_COUNTRY = (''id'', ''BillingNewAddress_CountryId'')"
definition BILLING_CITY :: locator where "BILLING_CITY = (''id'', ''BillingNewAddress_City'')"
definition BILLING_ADDRESS1 :: locator where "BILLING_ADDRESS1 = (''id'', ''BillingNewAddress_Address1'')"
definition BILLING_ADDRESS2 :: locator where "BILLING_ADDRESS2 = (''id'', ''BillingNewAddress_Address2'')"
definition BILLING_ZIP :: locator where "BILLING_ZIP = (''id'', ''BillingNewAddress_ZipPostalCode'')"
definition BILLING_PHONE :: locator where "BILLING_PHONE = (''id'', ''BillingNewAddress_PhoneNumber'')"

text \<open>
  \<open>CheckoutPage.fill_billing_address\<close>. The \<open>except\<close> branch logs, takes a screenshot
  and re-raises, so the exception of the block is the exception of the method.
\<close>

definition fill_billing_address :: "browser \<Rightarrow> (string \<rightharpoonup> string) \<Rightarrow> action list \<times> exn option" where
  "fill_billing_address b address_data =
     perform b
       ([Inr (SendKeys BILLING_FIRST_NAME (dict_get address_data ''first_name'' '''')),
         Inr (SendKeys BILLING_LAST_NAME (dict_get address_data ''last_name'' '''')),
         Inr (SendKeys BILLING_EMAIL (dict_get address_data ''email'' ''''))]
        @ (if dict_truthy address_data ''company''
           then [map_sum id (SendKeys BILLING_COMPANY) (dict_item address_data ''company'')]
           else [])
        @ [Inr (SelectDropdownByText BILLING_COUNTRY (dict_get address_data ''country'' ''United States'')),
           Inr (SendKeys BILLING_CITY (dict_get address_data ''city'' '''')),
           Inr (SendKeys BILLING_ADDRESS1 (dict_get address_data ''address1'' ''''))]
        @ (if dict_truthy address_data ''address2''
           then [map_sum id (SendKeys BILLING_ADDRESS2) (dict_item address_data ''address2'')]
           else [])
        @ [Inr (SendKeys BILLING_ZIP (dict_get address_data ''zip_code'' '''')),
           Inr (SendKeys BILLING_PHONE (dict_get address_data ''phone'' ''''))])"

text \<open>The calls a dict asks for when nothing raises, written without \<open>d[k]\<close>.\<close>

definition optional_field :: "(string \<rightharpoonup> string) \<Rightarrow> string \<Rightarrow> locator \<Rightarrow> action list" where
  "optional_field d k l = (case d k of None \<Rightarrow> [] | Some v \<Rightarrow> if v = [] then [] else [SendKeys l v])"

definition billing_actions :: "(string \<rightharpoonup> string) \<Rightarrow> action list" where
  "billing_actions d =
     [SendKeys BILLING_FIRST_NAME (dict_get d ''first_name'' ''''),
      SendKeys BILLING_LAST_NAME (dict_get d ''last_name'' ''''),
      SendKeys BILLING_EMAIL (dict_get d ''email'' '''')]
     @ optional_field d ''company'' BILLING_COMPANY
     @ [SelectDropdownByText BILLING_COUNTRY (dict_get d ''country'' ''United States''),
        SendKeys BILLING_CITY (dict_get d ''city'' ''''),
        SendKeys BILLING_ADDRESS1 (dict_get d ''address1'' '''')]
     @ optional_field d ''address2'' BILLING_ADDRESS2
     @ [SendKeys BILLING_ZIP (dict_get d ''zip_code'' ''''),
        SendKeys BILLING_PHONE (dict_get d ''phone'' '''')]"

text \<open>A browser on which every action completes, and an address without optional fields.\<close>

definition ok_browser :: browser where
  "ok_browser = (\<lambda>a. None)"

definition city_only_address :: "string \<rightharpoonup> string" where
  "city_only_address = [''city'' \<mapsto> ''NYC'', ''company'' \<mapsto> '''']"

definition city_timeout_browser :: browser where
  "city_timeout_browser =
     (\<lambda>a. if a = SendKeys BILLING_CITY ''NYC'' then Some (TimeoutException ''Message: '') else None)"

section \<open>Text operations\<close>

text \<open>
  \<open>startswith\<close>, \<open>sub in s\<close>, \<open>lower\<close>, \<open>strip\<close> and \<open>isdigit\<close> of Python's
  \<open>str\<close>, on ASCII text.
\<close>

definition startswith :: "string \<Rightarrow> string \<Rightarrow> bool" where
  "startswith s p = (take (length p) s = p)"

fun contains :: "string \<Rightarrow> string \<Rightarrow> bool" where
  "contains [] sub = (sub = [])"
| "contains (c # cs) sub = (startswith (c # cs) sub \<or> contains cs sub)"

definition lower_char :: "char \<Rightarrow> char" where
  "lower_char c =
     (case map_of (zip ''ABCDEFGHIJKLMNOPQRSTUVWXYZ'' ''abcdefghijklmnopqrstuvwxyz'') c of
        Some l \<Rightarrow> l
      | None \<Rightarrow> c)"

definition lower :: "string \<Rightarrow> string" where
  "lower s = map lower_char s"

definition isdigit :: "char \<Rightarrow> bool" where
  "isdigit c = (c \<in> set ''0123456789'')"

definition isspace :: "char \<Rightarrow> bool" where
  "isspace c = (c \<in> set [CHR '' '', CHR 0x09, CHR 0x0A, CHR 0x0B, CHR 0x0C, CHR 0x0D,
                          CHR 0x1C, CHR 0x1D, CHR 0x1E, CHR 0x1F])"

definition strip :: "string \<Rightarrow> string" where
  "strip s = rev (dropWhile isspace (rev (dropWhile isspace s)))"

section \<open>pages/cart_page.py\<close>

text \<open>
  What the cart page answers to \<open>get_cart_total\<close>: for a locator, whether
  \<open>is_element_present\<close> finds it and what \<open>get_text\<close> returns (either may raise), and
  the \<open>text\<close> of each \<open>strong\<close> element of the page (finding them may raise, and so
  may reading one).
\<close>

record cart_dom =
  is_element_present :: "locator \<Rightarrow> exn + bool"
  get_text :: "locator \<Rightarrow> exn + string"
  strong_texts :: "exn + (exn + string) list"

definition total_locators :: "locator list" where
  "total_locators =
     [(''css selector'', ''.order-total .cart-total-right strong''),
      (''css selector'', ''.order-total strong''),
      (''xpath'', ''//div[@class='' @ [CHR 0x27] @ ''order-total'' @ [CHR 0x27] @ '']//strong''),
      (''xpath'', ''//*[contains(@class, '' @ [CHR 0x27] @ ''order-total'' @ [CHR 0x27] @ '')]//strong''),
      (''css selector'', ''.cart-total strong''),
      (''xpath'', ''//span[@class='' @ [CHR 0x27] @ ''order-total'' @ [CHR 0x27] @ '']//strong'')]"

text \<open>
  The loop over \<open>total_locators\<close>: an exception inside the \<open>try\<close> goes on to the next
  locator, a non-empty text ends the loop. The result is the variable \<open>total\<close> after the loop.
\<close>

fun find_total :: "cart_dom \<Rightarrow> locator list \<Rightarrow> string" where
  "find_total page [] = ''''"
| "find_total page (l # ls) =
     (case is_element_present page l of
        Inl e \<Rightarrow> find_total page ls
      | Inr present \<Rightarrow>
          if present
          then (case get_text page l of
                  Inl e \<Rightarrow> find_total page ls
                | Inr t \<Rightarrow> if t \<noteq> [] then t else find_total page ls)
          else find_total page ls)"

text \<open>
  The fallback over all \<open>strong\<close> elements. The condition is
  \<open>text and '$' in text and text[0].isdigit() or text.startswith('$')\<close>; an exception
  leaves the \<open>try\<close> with \<open>total\<close> still empty.
\<close>

fun scan_strongs :: "(exn + string) list \<Rightarrow> string" where
  "scan_strongs [] = ''''"
| "scan_strongs (Inl e # ss) = ''''"
| "scan_strongs (Inr raw # ss) =
     (let text = strip raw
      in if (text \<noteq> [] \<and> contains text ''$'' \<and> isdigit (hd text)) \<or> startswith text ''$''
         then text
         else scan_strongs ss)"

text \<open>
  \<open>CartPage.get_cart_total\<close>. Nothing in the outer \<open>try\<close> raises outside the inner
  handlers, so the outer \<open>except\<close> (returning 'Total retrieval failed') has no branch
  here.
\<close>

definition get_cart_total :: "cart_dom \<Rightarrow> string" where
  "get_cart_total page =
     (let t = find_total page total_locators;
          t = (if t = []
               then (case strong_texts page of Inl e \<Rightarrow> '''' | Inr ss \<Rightarrow> scan_strongs ss)
               else t)
      in if t \<noteq> [] then t else ''Total not displayed'')"

section \<open>The csv file\<close>

text \<open>
  \<open>csv.DictWriter\<close> with its defaults (the excel dialect): fields separated by a comma,
  a field quoted when it holds a comma, a double quote, a carriage return or a line
  feed, a double quote inside a quoted field doubled, every row ended with CR LF. A row
  of one empty field is written as two double quotes.
\<close>

definition COMMA :: char where "COMMA = CHR '',''"
definition QUOTE :: char where "QUOTE = CHR 0x22"
definition CR :: char where "CR = CHR 0x0D"
definition LF :: char where "LF = CHR 0x0A"

definition special :: "char \<Rightarrow> bool" where
  "special c = (c = COMMA \<or> c = QUOTE \<or> c = CR \<or> c = LF)"

definition needs_quotes :: "string \<Rightarrow> bool" where
  "needs_quotes f = list_ex special f"

fun double_quotes :: "string \<Rightarrow> string" where
  "double_quotes [] = []"
| "double_quotes (c # cs) = (if c = QUOTE then QUOTE # QUOTE # double_quotes cs else c # double_quotes cs)"

definition write_field :: "string \<Rightarrow> string" where
  "write_field f = (if needs_quotes f then QUOTE # double_quotes f @ [QUOTE] else f)"

fun join_fields :: "string list \<Rightarrow> string" where
  "join_fields [] = []"
| "join_fields [f] = f"
| "join_fields (f # g # fs) = f @ COMMA # join_fields (g # fs)"

definition writerow :: "string list \<Rightarrow> string" where
  "writerow fs = (if fs = [[]] then [QUOTE, QUOTE] else join_fields (map write_field fs)) @ [CR, LF]"

text \<open>
  \<open>str\<close> of the value under a key of a step, as \<open>DictWriter\<close> looks it up for a
  field name; a field name that is no key gives the empty string (\<open>restval\<close>).
\<close>

fun str_cell :: "cell \<Rightarrow> string" where
  "str_cell (IntCell n) = str_int n"
| "str_cell (StrCell s) = s"

definition step_keys :: "string list" where
  "step_keys = [''Step Number'', ''Step Name'', ''Status'', ''Duration (seconds)'',
                ''Details'', ''Error Message'']"

definition field_text :: "'d float_ops \<Rightarrow> 'd step \<Rightarrow> string \<Rightarrow> string" where
  "field_text fo s key =
     (if key = ''Step Number'' then str_cell (step_number s)
      else if key = ''Step Name'' then step_name s
      else if key = ''Status'' then status s
      else if key = ''Duration (seconds)'' then frepr fo (duration s)
      else if key = ''Details'' then details s
      else if key = ''Error Message'' then error_message s
      else '''')"

definition dict_to_list :: "'d float_ops \<Rightarrow> string list \<Rightarrow> 'd step \<Rightarrow> string list" where
  "dict_to_list fo fieldnames s = map (field_text fo s) fieldnames"

text \<open>
  A step has all six keys; \<open>DictWriter\<close> raises \<open>ValueError\<close> on a key that is no
  field name. (Python lists the keys in the message in the order of a set.)
\<close>

definition wrong_fields :: "string list \<Rightarrow> string list" where
  "wrong_fields fieldnames = filter (\<lambda>k. k \<notin> set fieldnames) step_keys"

fun join_comma :: "string list \<Rightarrow> string" where
  "join_comma [] = []"
| "join_comma [f] = f"
| "join_comma (f # g # fs) = f @ '', '' @ join_comma (g # fs)"

definition csv_text :: "'d float_ops \<Rightarrow> 'd reporter \<Rightarrow> string" where
  "csv_text fo r =
     writerow (headers r) @ concat (map (\<lambda>s. writerow (dict_to_list fo (headers r) s)) (steps r))"

text \<open>
  \<open>CSVReporter.generate_report\<close>. \<open>open_error\<close> tells whether \<open>open(csv_file, 'w')\<close>
  raises. The result is the exception that is re-raised, or the path with the text
  written to it.
\<close>

definition generate_report ::
  "'d float_ops \<Rightarrow> exn option \<Rightarrow> 'd reporter \<Rightarrow> exn + (string \<times> string)"
where
  "generate_report fo open_error r =
     (case open_error of
        Some e \<Rightarrow> Inl e
      | None \<Rightarrow>
          if steps r \<noteq> [] \<and> wrong_fields (headers r) \<noteq> []
          then Inl (ValueError (''dict contains fields not in fieldnames: ''
                      @ join_comma (map (\<lambda>k. CHR 0x27 # k @ [CHR 0x27]) (wrong_fields (headers r)))))
          else Inr (csv_file r, csv_text fo r))"

section \<open>pages/checkout_page.py: the wizard's buttons\<close>

definition BILLING_CONTINUE_BUTTON :: locator where
  "BILLING_CONTINUE_BUTTON = (''css selector'', ''#billing-buttons-container .button-1.new-address-next-step-button'')"
definition SHIPPING_CONTINUE_BUTTON :: locator where
  "SHIPPING_CONTINUE_BUTTON = (''css selector'', ''#shipping-buttons-container .button-1.new-address-next-step-button'')"
definition SHIPPING_METHOD_CONTINUE :: locator where
  "SHIPPING_METHOD_CONTINUE = (''css selector'', ''#shipping-method-buttons-container .button-1.shipping-method-next-step-button'')"
definition GROUND_SHIPPING :: locator where "GROUND_SHIPPING = (''id'', ''shippingoption_0'')"
definition NEXT_DAY_AIR :: locator where "NEXT_DAY_AIR = (''id'', ''shippingoption_1'')"
definition SECOND_DAY_AIR :: locator where "SECOND_DAY_AIR = (''id'', ''shippingoption_2'')"
definition PAYMENT_METHOD_CONTINUE :: locator where
  "PAYMENT_METHOD_CONTINUE = (''css selector'', ''#payment-method-buttons-container .button-1.payment-method-next-step-button'')"
definition CASH_ON_DELIVERY :: locator where "CASH_ON_DELIVERY = (''id'', ''paymentmethod_0'')"
definition CHECK_MONEY_ORDER :: locator where "CHECK_MONEY_ORDER = (''id'', ''paymentmethod_1'')"
definition CREDIT_CARD :: locator where "CREDIT_CARD = (''id'', ''paymentmethod_2'')"
definition PURCHASE_ORDER :: locator where "PURCHASE_ORDER = (''id'', ''paymentmethod_3'')"
definition PAYMENT_INFO_CONTINUE :: locator where
  "PAYMENT_INFO_CONTINUE = (''css selector'', ''#payment-info-buttons-container .button-1.payment-info-next-step-button'')"
definition CONFIRM_BUTTON :: locator where
  "CONFIRM_BUTTON = (''css selector'', ''#confirm-order-buttons-container .button-1.confirm-order-next-step-button'')"
definition ORDER_SUCCESS_MESSAGE :: locator where
  "ORDER_SUCCESS_MESSAGE = (''css selector'', ''.section.order-completed .title strong'')"

text \<open>
  Each method clicks one element inside a \<open>try\<close> whose handler logs and re-raises; the
  result is the exception raised, if any. The \<open>time.sleep\<close> calls have no result.
\<close>

definition click_billing_continue :: "browser \<Rightarrow> exn option" where
  "click_billing_continue b = b (Click BILLING_CONTINUE_BUTTON)"

definition click_shipping_continue :: "browser \<Rightarrow> exn option" where
  "click_shipping_continue b = b (Click SHIPPING_CONTINUE_BUTTON)"

definition select_shipping_method :: "browser \<Rightarrow> string \<Rightarrow> exn option" where
  "select_shipping_method b method =
     (let method_lower = lower method
      in if method_lower = ''ground'' then b (Click GROUND_SHIPPING)
         else if method_lower = ''next_day'' then b (Click NEXT_DAY_AIR)
         else if method_lower = ''second_day'' then b (Click SECOND_DAY_AIR)
         else b (Click GROUND_SHIPPING))"

definition click_shipping_method_continue :: "browser \<Rightarrow> exn option" where
  "click_shipping_method_continue b = b (Click SHIPPING_METHOD_CONTINUE)"

definition select_payment_method :: "browser \<Rightarrow> string \<Rightarrow> exn option" where
  "select_payment_method b method =
     (let method_lower = lower method
      in if method_lower = ''cash'' then b (Click CASH_ON_DELIVERY)
         else if method_lower = ''check'' then b (Click CHECK_MONEY_ORDER)
         else if method_lower = ''credit_card'' then b (Click CREDIT_CARD)
         else if method_lower = ''purchase_order'' then b (Click PURCHASE_ORDER)
         else b (Click CASH_ON_DELIVERY))"

definition click_payment_method_continue :: "browser \<Rightarrow> exn option" where
  "click_payment_method_continue b = b (Click PAYMENT_METHOD_CONTINUE)"

definition click_payment_info_continue :: "browser \<Rightarrow> exn option" where
  "click_payment_info_continue b = b (Click PAYMENT_INFO_CONTINUE)"

definition click_confirm_order :: "browser \<Rightarrow> exn option" where
  "click_confirm_order b = b (Click CONFIRM_BUTTON)"

text \<open>
  \<open>CheckoutPage.get_order_success_message\<close>. Its argument is the outcome of
  \<open>self.get_text(ORDER_SUCCESS_MESSAGE)\<close>, which waits for the element up to the
  page's timeout and raises \<open>TimeoutException\<close> when it does not appear. The handler
  logs the exception and returns the empty string.
\<close>

definition get_order_success_message :: "exn + string \<Rightarrow> string" where
  "get_order_success_message text_outcome = (case text_outcome of Inl e \<Rightarrow> '''' | Inr message \<Rightarrow> message)"

section \<open>Sequencing statements that may raise\<close>

text \<open>
  \<open>then_do\<close> and \<open>bind_exn\<close> run the next statement only when the one before
  returned. \<open>py_assert\<close> is \<open>assert c, msg\<close>: it raises \<open>AssertionError(msg)\<close>
  when \<open>c\<close> is false. (Run under pytest's assertion rewriting, the text of that
  exception goes on, after \<open>msg\<close>, with pytest's account of the failed condition.)
\<close>

definition then_do :: "exn option \<Rightarrow> exn option \<Rightarrow> exn option" where
  "then_do a b = (case a of Some e \<Rightarrow> Some e | None \<Rightarrow> b)"

definition bind_exn :: "exn + 'a \<Rightarrow> ('a \<Rightarrow> exn + 'b) \<Rightarrow> exn + 'b" where
  "bind_exn m f = (case m of Inl e \<Rightarrow> Inl e | Inr x \<Rightarrow> f x)"

definition check :: "exn option \<Rightarrow> exn + unit" where
  "check a = (case a of Some e \<Rightarrow> Inl e | None \<Rightarrow> Inr ())"

definition py_assert :: "bool \<Rightarrow> string \<Rightarrow> exn + unit" where
  "py_assert c msg = (if c then Inr () else Inl (AssertionError msg))"

section \<open>tests/test_05_complete_checkout_flow.py\<close>

text \<open>
  \<open>TestDataReader.get_user_credentials\<close>: a copy of the stored credentials with the
  key email set to the address generated for the run.
\<close>

definition get_user_credentials :: "(string \<rightharpoonup> string) \<Rightarrow> string \<Rightarrow> (string \<rightharpoonup> string)" where
  "get_user_credentials stored unique_email = stored(''email'' \<mapsto> unique_email)"

text \<open>
  Everything \<open>test_end_to_end_checkout_flow\<close> receives from outside, as inputs: the test
  data, what each \<open>StepTimer\<close> measures (by step number), and the outcome of every call
  on a page object: the exception it raises or the value it returns. Methods whose own
  handler returns a value on every exception (\<open>is_logged_in\<close>,
  \<open>get_search_results_count\<close>, \<open>get_cart_items_count\<close>, \<open>close_notification\<close>,
  \<open>get_product_names\<close>, \<open>get_order_number\<close>, \<open>capture_screenshot\<close>) cannot raise.
  The calls inside the product loop are indexed by the position in the loop.
\<close>

record 'd env =
  stored_credentials :: "string \<rightharpoonup> string"
  unique_email :: string
  billing_address :: "string \<rightharpoonup> string"
  products_to_add :: "string list"
  durations :: "nat \<Rightarrow> 'd"
  navigate_to_registration_page :: "exn option"
  register_new_user :: "exn + bool"
  is_logged_in :: bool
  logout :: "exn + bool"
  login :: "exn + bool"
  search_product :: "nat \<Rightarrow> exn option"
  get_search_results_count :: "nat \<Rightarrow> nat"
  add_to_cart_from_listing :: "nat \<Rightarrow> exn option"
  click_logo :: "nat \<Rightarrow> exn option"
  navigate_to_shopping_cart :: "exn option"
  get_cart_items_count :: nat
  cart_page :: cart_dom
  proceed_to_checkout :: "exn option"
  checkout_browser :: browser
  order_success_text :: "exn + string"
  open_error :: "exn option"

definition credentials :: "'d env \<Rightarrow> (string \<rightharpoonup> string)" where
  "credentials env = get_user_credentials (stored_credentials env) (unique_email env)"

text \<open>The lines the product loop logs.\<close>

datatype log =
    AddingProduct nat string
  | ProductAdded string
  | NoResults string
  | FailedToAdd string exn

text \<open>
  One pass of the loop body for the product at position \<open>i\<close>: what it adds to
  \<open>added_count\<close> and what it logs. Every exception is caught and logged.
\<close>

definition add_product :: "'d env \<Rightarrow> nat \<Rightarrow> string \<Rightarrow> nat \<times> log list" where
  "add_product env i product =
     (case search_product env i of
        Some e \<Rightarrow> (0, [AddingProduct (i + 1) product, FailedToAdd product e])
      | None \<Rightarrow>
          if get_search_results_count env i > 0
          then (case add_to_cart_from_listing env i of
                  Some e \<Rightarrow> (0, [AddingProduct (i + 1) product, FailedToAdd product e])
                | None \<Rightarrow>
                    (case click_logo env i of
                       Some e \<Rightarrow> (1, [AddingProduct (i + 1) product, ProductAdded product,
                                        FailedToAdd product e])
                     | None \<Rightarrow> (1, [AddingProduct (i + 1) product, ProductAdded product])))
          else (0, [AddingProduct (i + 1) product, NoResults product]))"

fun add_products :: "'d env \<Rightarrow> nat \<Rightarrow> string list \<Rightarrow> nat \<times> log list" where
  "add_products env i [] = (0, [])"
| "add_products env i (p # ps) =
     (case add_product env i p of
        (k, l) \<Rightarrow> (case add_products env (Suc i) ps of (n, ls) \<Rightarrow> (k + n, l @ ls)))"

definition added_count :: "'d env \<Rightarrow> nat" where
  "added_count env = fst (add_products env 0 (take 3 (products_to_add env)))"

definition populate_log :: "'d env \<Rightarrow> log list" where
  "populate_log env = snd (add_products env 0 (take 3 (products_to_add env)))"

text \<open>
  The body of each \<open>try\<close> up to \<open>add_step\<close>: the exception that sends it to the
  handler, or the details string of the SUCCESS step.
\<close>

definition step0_body :: "'d env \<Rightarrow> exn + string" where
  "step0_body env =
     bind_exn (check (navigate_to_registration_page env)) (\<lambda>_.
     bind_exn (dict_item (credentials env) ''first_name'') (\<lambda>first_name.
     bind_exn (dict_item (credentials env) ''last_name'') (\<lambda>last_name.
     bind_exn (dict_item (credentials env) ''email'') (\<lambda>email.
     bind_exn (dict_item (credentials env) ''password'') (\<lambda>password.
     bind_exn (register_new_user env) (\<lambda>reg_success.
     bind_exn (py_assert reg_success ''User registration failed'') (\<lambda>_.
     bind_exn (dict_item (credentials env) ''email'') (\<lambda>email.
     Inr (''Registered user: '' @ email)))))))))"

definition step1_body :: "'d env \<Rightarrow> exn + string" where
  "step1_body env =
     bind_exn (if is_logged_in env
               then bind_exn (logout env) (\<lambda>logout_success. py_assert logout_success ''Logout failed'')
               else Inr ()) (\<lambda>_.
     Inr ''User logged out successfully after registration'')"

definition step2_body :: "'d env \<Rightarrow> exn + string" where
  "step2_body env =
     bind_exn (dict_item (credentials env) ''email'') (\<lambda>email.
     bind_exn (dict_item (credentials env) ''password'') (\<lambda>password.
     bind_exn (login env) (\<lambda>login_success.
     bind_exn (py_assert login_success ''Login with newly created credentials failed'') (\<lambda>_.
     bind_exn (dict_item (credentials env) ''email'') (\<lambda>email.
     Inr (''Successfully logged in with new credentials: '' @ email))))))"

definition step3_body :: "'d env \<Rightarrow> exn + string" where
  "step3_body env =
     bind_exn (py_assert (added_count env > 0) ''Failed to add any products to cart'') (\<lambda>_.
     Inr (''Added '' @ str_int (int (added_count env)) @ '' products to cart''))"

definition step4_body :: "'d env \<Rightarrow> exn + string" where
  "step4_body env =
     bind_exn (check (navigate_to_shopping_cart env)) (\<lambda>_.
     let cart_items_count = get_cart_items_count env in
     bind_exn (py_assert (cart_items_count > 0) ''Cart is empty'') (\<lambda>_.
     let cart_total = get_cart_total (cart_page env) in
     Inr (''Cart items: '' @ str_int (int cart_items_count) @ '', Total: '' @ cart_total)))"

definition step5_body :: "'d env \<Rightarrow> exn + string" where
  "step5_body env =
     bind_exn (check (proceed_to_checkout env)) (\<lambda>_.
     Inr ''Successfully navigated to checkout'')"

definition step6_body :: "'d env \<Rightarrow> exn + string" where
  "step6_body env =
     bind_exn (check (snd (fill_billing_address (checkout_browser env) (billing_address env)))) (\<lambda>_.
     bind_exn (check (click_billing_continue (checkout_browser env))) (\<lambda>_.
     bind_exn (dict_item (billing_address env) ''city'') (\<lambda>city.
     bind_exn (dict_item (billing_address env) ''country'') (\<lambda>country.
     Inr (''Billing address: '' @ city @ '', '' @ country)))))"

definition step7_body :: "'d env \<Rightarrow> exn + string" where
  "step7_body env =
     (let b = checkout_browser env in
      bind_exn (check
        (then_do (click_shipping_continue b)
        (then_do (select_shipping_method b ''ground'')
        (then_do (click_shipping_method_continue b)
        (then_do (select_payment_method b ''cash'')
        (then_do (click_payment_method_continue b)
        (then_do (click_payment_info_continue b)
                 (click_confirm_order b)))))))) (\<lambda>_.
      Inr ''Shipping: Ground, Payment: Cash on Delivery''))"

definition step8_body :: "'d env \<Rightarrow> exn + string" where
  "step8_body env =
     (let success_message = get_order_success_message (order_success_text env) in
      bind_exn (py_assert (contains (lower success_message) ''successfully''
                           \<or> contains (lower success_message) ''processed'')
                  (''Unexpected success message: '' @ success_message)) (\<lambda>_.
      Inr (''Order confirmed. Message: '' @ take 50 success_message @ ''...'')))"

text \<open>
  One step of the test: its number and name, the duration its timer measures, the
  details the handler records, and the outcome of its \<open>try\<close> body.
\<close>

record 'd stage =
  stage_number :: int
  stage_name :: string
  stage_duration :: 'd
  stage_fail_details :: string
  stage_outcome :: "exn + string"

definition stages :: "'d env \<Rightarrow> 'd stage list" where
  "stages env =
     [\<lparr>stage_number = 0, stage_name = ''User Registration'', stage_duration = durations env 0,
       stage_fail_details = ''Failed to register user: '' @ dict_get (credentials env) ''email'' '''',
       stage_outcome = step0_body env\<rparr>,
      \<lparr>stage_number = 1, stage_name = ''Logout After Registration'', stage_duration = durations env 1,
       stage_fail_details = ''Failed to logout after registration'',
       stage_outcome = step1_body env\<rparr>,
      \<lparr>stage_number = 2, stage_name = ''Login with New Credentials'', stage_duration = durations env 2,
       stage_fail_details = ''Failed to login with new credentials: '' @ dict_get (credentials env) ''email'' '''',
       stage_outcome = step2_body env\<rparr>,
      \<lparr>stage_number = 3, stage_name = ''Add Products to Cart'', stage_duration = durations env 3,
       stage_fail_details = ''Only added '' @ str_int (int (added_count env)) @ '' products'',
       stage_outcome = step3_body env\<rparr>,
      \<lparr>stage_number = 4, stage_name = ''Cart Validation'', stage_duration = durations env 4,
       stage_fail_details = ''Failed to validate cart'',
       stage_outcome = step4_body env\<rparr>,
      \<lparr>stage_number = 5, stage_name = ''Proceed to Checkout'', stage_duration = durations env 5,
       stage_fail_details = ''Failed to proceed to checkout'',
       stage_outcome = step5_body env\<rparr>,
      \<lparr>stage_number = 6, stage_name = ''Fill Billing Address'', stage_duration = durations env 6,
       stage_fail_details = ''Failed to fill billing address'',
       stage_outcome = step6_body env\<rparr>,
      \<lparr>stage_number = 7, stage_name = ''Complete Checkout (Shipping, Payment, Confirm)'',
       stage_duration = durations env 7,
       stage_fail_details = ''Failed to complete checkout flow'',
       stage_outcome = step7_body env\<rparr>,
      \<lparr>stage_number = 8, stage_name = ''Order Completion Validation'', stage_duration = durations env 8,
       stage_fail_details = ''Failed to validate order completion'',
       stage_outcome = step8_body env\<rparr>]"

text \<open>
  The \<open>try\<close>/\<open>except\<close> around a step: on success the SUCCESS step is added and the
  test goes on; on an exception the FAILED step is added with \<open>str(e)\<close> and the
  exception is re-raised, which ends the test.
\<close>

definition record_stage :: "'d float_ops \<Rightarrow> 'd reporter \<Rightarrow> 'd stage \<Rightarrow> 'd reporter \<times> exn option" where
  "record_stage fo r s =
     (case stage_outcome s of
        Inr det \<Rightarrow>
          (add_step fo r (stage_number s) (stage_name s) ''SUCCESS'' (stage_duration s) det '''', None)
      | Inl e \<Rightarrow>
          (add_step fo r (stage_number s) (stage_name s) ''FAILED'' (stage_duration s)
             (stage_fail_details s) (str_exn e), Some e))"

fun run_stages :: "'d float_ops \<Rightarrow> 'd reporter \<Rightarrow> 'd stage list \<Rightarrow> 'd reporter \<times> exn option" where
  "run_stages fo r [] = (r, None)"
| "run_stages fo r (s # ss) =
     (case record_stage fo r s of
        (r', Some e) \<Rightarrow> (r', Some e)
      | (r', None) \<Rightarrow> run_stages fo r' ss)"

text \<open>
  What a run leaves behind: the reporter object, the exception the test ends with (if
  any), and the report file written (path and text), if one was written.
\<close>

record 'd run_result =
  csv_reporter :: "'d reporter"
  raised :: "exn option"
  report_file :: "(string \<times> string) option"

text \<open>
  \<open>test_end_to_end_checkout_flow\<close>, after the data provider has returned its values.
  \<open>root\<close> and \<open>now\<close> are the repository directory and the time at which the reporter
  is created.
\<close>

definition test_end_to_end_checkout_flow ::
  "'d float_ops \<Rightarrow> string \<Rightarrow> datetime \<Rightarrow> 'd env \<Rightarrow> 'd run_result"
where
  "test_end_to_end_checkout_flow fo root now env =
     (case run_stages fo (CSVReporter_init root now ''e2e_checkout_test'') (stages env) of
        (r, Some e) \<Rightarrow> \<lparr>csv_reporter = r, raised = Some e, report_file = None\<rparr>
      | (r, None) \<Rightarrow>
          (let r' = add_summary fo r
           in case generate_report fo (open_error env) r' of
                Inl e \<Rightarrow> \<lparr>csv_reporter = r', raised = Some e, report_file = None\<rparr>
              | Inr f \<Rightarrow> \<lparr>csv_reporter = r', raised = None, report_file = Some f\<rparr>))"

text \<open>Reading a run off its stages: which stages get a step, and which step.\<close>

definition succeeded :: "'d stage \<Rightarrow> bool" where
  "succeeded s = (case stage_outcome s of Inr det \<Rightarrow> True | Inl e \<Rightarrow> False)"

definition step_of_stage :: "'d float_ops \<Rightarrow> 'd stage \<Rightarrow> 'd step" where
  "step_of_stage fo s =
     (case stage_outcome s of
        Inr det \<Rightarrow> \<lparr>step_number = IntCell (stage_number s), step_name = stage_name s,
                    status = ''SUCCESS'', duration = round2 fo (stage_duration s),
                    details = det, error_message = ''''\<rparr>
      | Inl e \<Rightarrow> \<lparr>step_number = IntCell (stage_number s), step_name = stage_name s,
                  status = ''FAILED'', duration = round2 fo (stage_duration s),
                  details = stage_fail_details s, error_message = str_exn e\<rparr>)"

definition recorded_count :: "'d stage list \<Rightarrow> nat" where
  "recorded_count ss =
     (let n = length (takeWhile succeeded ss) in if n < length ss then Suc n else n)"

definition first_failure :: "'d stage list \<Rightarrow> exn option" where
  "first_failure ss =
     (case dropWhile succeeded ss of
        [] \<Rightarrow> None
      | s # rest \<Rightarrow> (case stage_outcome s of Inl e \<Rightarrow> Some e | Inr det \<Rightarrow> None))"

text \<open>
  The calls of a run outside the product loop: each call on a page object returns
  without raising and each assertion holds.
\<close>

definition wizard_clicks :: "action list" where
  "wizard_clicks =
     [Click BILLING_CONTINUE_BUTTON, Click SHIPPING_CONTINUE_BUTTON, Click GROUND_SHIPPING,
      Click SHIPPING_METHOD_CONTINUE, Click CASH_ON_DELIVERY, Click PAYMENT_METHOD_CONTINUE,
      Click PAYMENT_INFO_CONTINUE, Click CONFIRM_BUTTON]"

definition page_calls_completed :: "'d env \<Rightarrow> bool" where
  "page_calls_completed env =
     (navigate_to_registration_page env = None
      \<and> register_new_user env = Inr True
      \<and> (is_logged_in env \<longrightarrow> logout env = Inr True)
      \<and> login env = Inr True
      \<and> 0 < added_count env
      \<and> navigate_to_shopping_cart env = None
      \<and> 0 < get_cart_items_count env
      \<and> proceed_to_checkout env = None
      \<and> list_all (\<lambda>a. checkout_browser env a = None)
           (billing_actions (billing_address env) @ wizard_clicks)
      \<and> (\<exists>message. order_success_text env = Inr message)
      \<and> open_error env = None)"

section \<open>Example runs\<close>

text \<open>A run in which every call completes, and runs that differ from it in one answer.\<close>

definition happy_cart :: cart_dom where
  "happy_cart = \<lparr>is_element_present = (\<lambda>l. Inr True), get_text = (\<lambda>l. Inr ''$2,015.00''),
                  strong_texts = Inr []\<rparr>"

definition happy_env :: "int env" where
  "happy_env =
     \<lparr>stored_credentials = [''first_name'' \<mapsto> ''Test'', ''last_name'' \<mapsto> ''User'',
                             ''password'' \<mapsto> ''Test@123''],
      unique_email = ''testuser_1715938207_4821@example.com'',
      billing_address = [''first_name'' \<mapsto> ''Jane'', ''last_name'' \<mapsto> ''Doe'',
                         ''email'' \<mapsto> ''jane@example.com'', ''country'' \<mapsto> ''United States'',
                         ''city'' \<mapsto> ''NYC'', ''address1'' \<mapsto> ''1 Main St'',
                         ''zip_code'' \<mapsto> ''10001'', ''phone'' \<mapsto> ''5551234567''],
      products_to_add = [''laptop'', ''phone'', ''book'', ''shoes''],
      durations = (\<lambda>k. 100 + int k),
      navigate_to_registration_page = None,
      register_new_user = Inr True,
      is_logged_in = True,
      logout = Inr True,
      login = Inr True,
      search_product = (\<lambda>i. None),
      get_search_results_count = (\<lambda>i. 4),
      add_to_cart_from_listing = (\<lambda>i. None),
      click_logo = (\<lambda>i. None),
      navigate_to_shopping_cart = None,
      get_cart_items_count = 3,
      cart_page = happy_cart,
      proceed_to_checkout = None,
      checkout_browser = ok_browser,
      order_success_text = Inr ''Your order has been successfully processed!'',
      open_error = None\<rparr>"

definition registration_fails_env :: "int env" where
  "registration_fails_env = happy_env\<lparr>register_new_user := Inr False\<rparr>"

definition confirm_timeout_env :: "int env" where
  "confirm_timeout_env = happy_env\<lparr>order_success_text := Inl (TimeoutException ''Message: timeout'')\<rparr>"

definition confirm_click_browser :: browser where
  "confirm_click_browser =
     (\<lambda>a. if a = Click CONFIRM_BUTTON then Some (TimeoutException ''Message: timeout'') else None)"

definition confirm_click_env :: "int env" where
  "confirm_click_env = happy_env\<lparr>checkout_browser := confirm_click_browser\<rparr>"

text \<open>
  For the product at position \<open>i\<close> of the loop: whether \<open>add_to_cart_from_listing\<close>
  was called and returned (the product is counted), and the exception that kept the
  product from being counted, if there was one.
\<close>

definition product_added :: "'d env \<Rightarrow> nat \<Rightarrow> bool" where
  "product_added env i =
     (search_product env i = None \<and> 0 < get_search_results_count env i
      \<and> add_to_cart_from_listing env i = None)"

definition product_failure :: "'d env \<Rightarrow> nat \<Rightarrow> exn option" where
  "product_failure env i =
     (case search_product env i of
        Some e \<Rightarrow> Some e
      | None \<Rightarrow> if 0 < get_search_results_count env i then add_to_cart_from_listing env i else None)"




definition no_products_env :: "int env" where
  "no_products_env = happy_env\<lparr>search_product := (\<lambda>i. Some (TimeoutException ''Message: ''))\<rparr>"

definition second_product_env :: "int env" where
  "second_product_env =
     happy_env\<lparr>search_product := (\<lambda>i. if i = 0 then Some (TimeoutException ''Message: '') else None),
               get_search_results_count := (\<lambda>i. if i = 2 then 0 else 4)\<rparr>"

section \<open>Reading the csv file back\<close>

text \<open>
  The reader of the same format (\<open>csv.reader\<close> with its defaults, on a file opened
  with \<open>newline=''\<close>), as a machine over the characters of the text. A record ends at
  a line feed, at a carriage return, or at a carriage return followed by a line feed,
  outside quotes; inside quotes every character but the double quote belongs to the
  field. \<open>fld\<close> is the field read so far, \<open>row\<close> the fields of the record read so
  far. At the end of the text an unfinished record is returned as it stands.
\<close>

datatype rstate = StartRecord | AfterCR | StartField | InField | InQuotedField | QuoteInQuotedField

fun rank :: "rstate \<Rightarrow> nat" where
  "rank AfterCR = 2"
| "rank StartRecord = 1"
| "rank st = 0"

function (sequential) reader :: "rstate \<Rightarrow> string \<Rightarrow> string list \<Rightarrow> string \<Rightarrow> string list list" where
  "reader StartRecord fld row [] = []"
| "reader AfterCR fld row [] = [row]"
| "reader st fld row [] = [row @ [fld]]"
| "reader StartRecord fld row (c # cs) =
     (if c = LF then [] # reader StartRecord [] [] cs
      else if c = CR then reader AfterCR [] [] cs
      else reader StartField [] [] (c # cs))"
| "reader AfterCR fld row (c # cs) =
     (if c = LF then row # reader StartRecord [] [] cs
      else row # reader StartRecord [] [] (c # cs))"
| "reader StartField fld row (c # cs) =
     (if c = LF then (row @ [fld]) # reader StartRecord [] [] cs
      else if c = CR then reader AfterCR [] (row @ [fld]) cs
      else if c = QUOTE then reader InQuotedField fld row cs
      else if c = COMMA then reader StartField [] (row @ [fld]) cs
      else reader InField (fld @ [c]) row cs)"
| "reader InField fld row (c # cs) =
     (if c = LF then (row @ [fld]) # reader StartRecord [] [] cs
      else if c = CR then reader AfterCR [] (row @ [fld]) cs
      else if c = COMMA then reader StartField [] (row @ [fld]) cs
      else reader InField (fld @ [c]) row cs)"
| "reader InQuotedField fld row (c # cs) =
     (if c = QUOTE then reader QuoteInQuotedField fld row cs
      else reader InQuotedField (fld @ [c]) row cs)"
| "reader QuoteInQuotedField fld row (c # cs) =
     (if c = QUOTE then reader InQuotedField (fld @ [c]) row cs
      else if c = COMMA then reader StartField [] (row @ [fld]) cs
      else if c = LF then (row @ [fld]) # reader StartRecord [] [] cs
      else if c = CR then reader AfterCR [] (row @ [fld]) cs
      else reader InField (fld @ [c]) row cs)"
  by pat_completeness auto
termination
  by (relation "measure (\<lambda>(st, fld, row, cs). 3 * length cs + rank st)") auto

definition csv_reader :: "string \<Rightarrow> string list list" where
  "csv_reader text = reader StartRecord [] [] text"

text \<open>
  The cells of a step in the order of the header, and the step numbers the reporter
  itself produces: an \<open>int\<close>, or the empty string of the summary row.
\<close>

definition step_cells :: "'d float_ops \<Rightarrow> 'd step \<Rightarrow> string list" where
  "step_cells fo s =
     [str_cell (step_number s), step_name s, status s, frepr fo (duration s), details s,
      error_message s]"

fun reporter_number :: "cell \<Rightarrow> bool" where
  "reporter_number (IntCell n) = True"
| "reporter_number (StrCell s) = (s = [])"

section \<open>Recording steps\<close>

lemma steps_add_step:
  "steps (add_step fo r n nm st du de er) = steps r @ [step_of_call fo (n, nm, st, du, de, er)]"
  by (simp add: add_step_def step_of_call_def)

lemma steps_add_steps:
  "steps (add_steps fo r cs) = steps r @ map (step_of_call fo) cs"
proof (induction cs arbitrary: r)
  case Nil
  show ?case by simp
next
  case (Cons c cs)
  obtain n nm st du de er where c: "c = (n, nm, st, du, de, er)"
    by (cases c) auto
  show ?case
    unfolding c by (simp add: Cons.IH steps_add_step)
qed

text \<open>
  C7. \<open>add_step\<close> appends whatever it is given: after any sequence of calls, with any
  step numbers (repeated, decreasing, negative), the recorded steps are the earlier ones
  followed by one step per call, in call order, each carrying the step number of its call.
  The function has no failing branch: it returns a reporter for every input.
\<close>

theorem add_step_appends_unconditionally:
  "steps (add_step fo r n nm st du de er)
     = steps r @ [\<lparr>step_number = IntCell n, step_name = nm, status = st,
                   duration = round2 fo du, details = de, error_message = er\<rparr>]
   \<and> map step_number (steps (add_steps fo r cs))
     = map step_number (steps r) @ map (\<lambda>c. IntCell (fst c)) cs
   \<and> length (steps (add_steps fo r cs)) = length (steps r) + length cs"
proof -
  have "map step_number (map (step_of_call fo) cs) = map (\<lambda>c. IntCell (fst c)) cs"
    by (induction cs) (auto simp: step_of_call_def)
  then show ?thesis
    by (simp add: steps_add_steps add_step_def)
qed

section \<open>Counting passed steps\<close>

lemma filter_all_length: "int (length xs) - int (length (filter P xs)) = 0 \<longleftrightarrow> list_all P xs"
proof (cases "list_all P xs")
  case True
  then have "filter P xs = xs"
    by (simp add: list_all_iff)
  with True show ?thesis by simp
next
  case False
  then obtain x where "x \<in> set xs" "\<not> P x"
    by (auto simp: list_all_iff)
  then have "length (filter P xs) < length xs"
    by (rule length_filter_less)
  with False show ?thesis by simp
qed

lemma summary_last:
  "last (steps (add_summary fo r)) =
     \<lparr>step_number = StrCell '''', step_name = ''SUMMARY'',
      status = (if list_all (\<lambda>s. status s = ''SUCCESS'') (steps r) then ''PASSED'' else ''FAILED''),
      duration = round2 fo (foldl (fadd fo) (fzero fo) (map duration (steps r))),
      details = ''Total: '' @ str_int (int (length (steps r))) @ '', Passed: ''
                @ str_int (int (length (filter (\<lambda>s. status s = ''SUCCESS'') (steps r))))
                @ '', Failed: ''
                @ str_int (int (length (steps r)) - int (length (filter (\<lambda>s. status s = ''SUCCESS'') (steps r)))),
      error_message = ''''\<rparr>"
  using filter_all_length [of "steps r" "\<lambda>s. status s = ''SUCCESS''"]
  by (simp add: add_summary_def Let_def)

section \<open>The summary row\<close>

lemma record_stage_statuses:
  assumes "list_all (\<lambda>s. status s = ''SUCCESS'' \<or> status s = ''FAILED'') (steps r)"
  shows "list_all (\<lambda>s. status s = ''SUCCESS'' \<or> status s = ''FAILED'') (steps (fst (record_stage fo r s)))"
  using assms by (cases "stage_outcome s") (simp_all add: record_stage_def add_step_def)

lemma run_stages_statuses:
  assumes "list_all (\<lambda>s. status s = ''SUCCESS'' \<or> status s = ''FAILED'') (steps r)"
  shows "list_all (\<lambda>s. status s = ''SUCCESS'' \<or> status s = ''FAILED'') (steps (fst (run_stages fo r ss)))"
  using assms
proof (induction ss arbitrary: r)
  case Nil
  then show ?case by simp
next
  case (Cons s ss)
  obtain r' x where rs: "record_stage fo r s = (r', x)"
    by (cases "record_stage fo r s") auto
  have r': "list_all (\<lambda>s. status s = ''SUCCESS'' \<or> status s = ''FAILED'') (steps r')"
    using record_stage_statuses [OF Cons.prems, of fo s] rs by simp
  show ?case
  proof (cases x)
    case None
    then show ?thesis
      using rs Cons.IH [OF r'] by simp
  next
    case (Some e)
    then show ?thesis
      using rs r' by simp
  qed
qed

lemma passed_iff_no_failed:
  assumes "list_all (\<lambda>s. status s = ''SUCCESS'' \<or> status s = ''FAILED'') (steps r)"
  shows "status (last (steps (add_summary fo r))) = ''PASSED''
           \<longleftrightarrow> \<not> list_ex (\<lambda>s. status s = ''FAILED'') (steps r)"
proof -
  have "list_all (\<lambda>s. status s = ''SUCCESS'') (steps r)
            \<longleftrightarrow> \<not> list_ex (\<lambda>s. status s = ''FAILED'') (steps r)"
    using assms by (auto simp: list_ex_iff list_all_iff)
  then show ?thesis
    by (simp add: summary_last)
qed

text \<open>
  C2. \<open>add_summary\<close> appends one row named SUMMARY whose status is PASSED or FAILED
  (it counts the steps of status SUCCESS and takes every other step as failed). The
  statuses \<open>add_step\<close> is called with are SUCCESS and FAILED; on every report whose
  steps carry these statuses the summary is PASSED if and only if no recorded step is
  FAILED, and a FAILED step makes the summary FAILED on any report. Every report the
  steps of a run build, whatever the stages do, has only SUCCESS and FAILED steps, so the
  equivalence holds for it.
\<close>

theorem summary_status_passed_iff_no_failed:
  fixes fo :: "'d float_ops" and r :: "'d reporter" and ss :: "'d stage list"
  shows
  "(list_all (\<lambda>s. status s = ''SUCCESS'' \<or> status s = ''FAILED'') (steps r)
      \<longrightarrow> (status (last (steps (add_summary fo r))) = ''PASSED''
            \<longleftrightarrow> \<not> list_ex (\<lambda>s. status s = ''FAILED'') (steps r)))
   \<and> (list_ex (\<lambda>s. status s = ''FAILED'') (steps r)
      \<longrightarrow> status (last (steps (add_summary fo r))) = ''FAILED'')
   \<and> steps (add_summary fo r) = steps r @ [last (steps (add_summary fo r))]
   \<and> step_name (last (steps (add_summary fo r))) = ''SUMMARY''
   \<and> (status (last (steps (add_summary fo r))) = ''PASSED''
      \<or> status (last (steps (add_summary fo r))) = ''FAILED'')
   \<and> (let r' = fst (run_stages fo (CSVReporter_init root now name) ss) in
        list_all (\<lambda>s. status s = ''SUCCESS'' \<or> status s = ''FAILED'') (steps r')
        \<and> (status (last (steps (add_summary fo r'))) = ''PASSED''
            \<longleftrightarrow> \<not> list_ex (\<lambda>s. status s = ''FAILED'') (steps r')))"
proof -
  have a: "steps (add_summary fo r) = steps r @ [last (steps (add_summary fo r))]"
    by (simp add: add_summary_def Let_def)
  have b: "list_ex (\<lambda>s. status s = ''FAILED'') (steps r)
        \<Longrightarrow> status (last (steps (add_summary fo r))) = ''FAILED''"
    by (force simp: summary_last list_ex_iff list_all_iff)
  have c: "step_name (last (steps (add_summary fo r))) = ''SUMMARY''"
    by (simp add: summary_last)
  have d: "status (last (steps (add_summary fo r))) = ''PASSED''
      \<or> status (last (steps (add_summary fo r))) = ''FAILED''"
    by (simp add: summary_last)
  have i: "list_all (\<lambda>s. status s = ''SUCCESS'' \<or> status s = ''FAILED'')
             (steps (CSVReporter_init root now name :: 'd reporter))"
    by (simp add: CSVReporter_init_def Let_def)
  have e: "list_all (\<lambda>s. status s = ''SUCCESS'' \<or> status s = ''FAILED'')
             (steps (fst (run_stages fo (CSVReporter_init root now name) ss)))"
    using i by (rule run_stages_statuses)
  show ?thesis
    unfolding Let_def
    using a b c d e passed_iff_no_failed [of r fo] passed_iff_no_failed [OF e, of fo]
    by blast
qed

theorem summary_status_passed_iff_no_failed_witness:
  "list_all (\<lambda>s. status s = ''SUCCESS'' \<or> status s = ''FAILED'') (steps passed_report)
   \<and> \<not> list_ex (\<lambda>s. status s = ''FAILED'') (steps passed_report)
   \<and> status (last (steps (add_summary centi_ops passed_report))) = ''PASSED''
   \<and> list_all (\<lambda>s. status s = ''SUCCESS'' \<or> status s = ''FAILED'') (steps failed_report)
   \<and> list_ex (\<lambda>s. status s = ''FAILED'') (steps failed_report)
   \<and> status (last (steps (add_summary centi_ops failed_report))) = ''FAILED''
   \<and> details (last (steps (add_summary centi_ops failed_report))) = ''Total: 2, Passed: 1, Failed: 1''"
proof -
  have p: "steps passed_report =
     [step_of_call centi_ops (0, ''User Registration'', ''SUCCESS'', 120, ''ok'', ''''),
      step_of_call centi_ops (1, ''Logout After Registration'', ''SUCCESS'', 35, ''Logged out'', '''')]"
    unfolding passed_report_def steps_add_steps by (simp add: empty_reporter_def)
  have s: "steps failed_report =
     [step_of_call centi_ops (0, ''User Registration'', ''SUCCESS'', 120, ''ok'', ''''),
      step_of_call centi_ops (1, ''Logout After Registration'', ''FAILED'', 35,
         ''Failed to logout after registration'', ''Logout failed'')]"
    unfolding failed_report_def steps_add_steps by (simp add: empty_reporter_def)
  have pa: "list_all (\<lambda>s. status s = ''SUCCESS'' \<or> status s = ''FAILED'') (steps passed_report)"
    by (simp add: p step_of_call_def)
  have pn: "\<not> list_ex (\<lambda>s. status s = ''FAILED'') (steps passed_report)"
    by (simp add: p step_of_call_def)
  have a: "list_all (\<lambda>s. status s = ''SUCCESS'' \<or> status s = ''FAILED'') (steps failed_report)"
    by (simp add: s step_of_call_def)
  have e: "list_ex (\<lambda>s. status s = ''FAILED'') (steps failed_report)"
    by (simp add: s step_of_call_def)
  have d: "details (last (steps (add_summary centi_ops failed_report))) = ''Total: 2, Passed: 1, Failed: 1''"
    by (simp add: summary_last s step_of_call_def str_int_def str_nat.simps digit_char_def)
  have pp: "status (last (steps (add_summary centi_ops passed_report))) = ''PASSED''"
    using summary_status_passed_iff_no_failed [where r = passed_report and fo = centi_ops] pa pn
    by blast
  have f: "status (last (steps (add_summary centi_ops failed_report))) = ''FAILED''"
    using summary_status_passed_iff_no_failed [where r = failed_report and fo = centi_ops] e
    by blast
  show ?thesis
    using pa pn pp a e f d by blast
qed

section \<open>The report file name\<close>

lemma digit_char_inj:
  assumes "a < 10" "b < 10" "digit_char a = digit_char b"
  shows "a = b"
proof -
  have d: "distinct ''0123456789''" by simp
  have "a < length ''0123456789''" "b < length ''0123456789''"
    using assms by simp_all
  with d assms(3) show ?thesis
    unfolding digit_char_def by (simp only: nth_eq_iff_index_eq)
qed

lemma digit_char_eq: "a < 10 \<Longrightarrow> b < 10 \<Longrightarrow> digit_char a = digit_char b \<longleftrightarrow> a = b"
  using digit_char_inj by blast

lemma zpad2: "n < 100 \<Longrightarrow> zpad 2 n = [digit_char (n div 10), digit_char (n mod 10)]"
proof (cases "n < 10")
  case True
  then show ?thesis
    by (simp add: zpad_def str_nat.simps [of n] digit_char_def)
next
  case False
  assume "n < 100"
  with False have "n div 10 < 10" by simp
  with False show ?thesis
    by (simp add: zpad_def str_nat.simps [of n] str_nat.simps [of "n div 10"])
qed

lemma zpad2_inj:
  assumes "a < 100" "b < 100" "zpad 2 a = zpad 2 b"
  shows "a = b"
proof -
  from assms have "digit_char (a div 10) = digit_char (b div 10)"
    and "digit_char (a mod 10) = digit_char (b mod 10)"
    by (simp_all add: zpad2)
  then have "a div 10 = b div 10" "a mod 10 = b mod 10"
    using assms(1,2) by (simp_all add: digit_char_eq)
  then show ?thesis
    by (metis div_mult_mod_eq)
qed

lemma zpad4:
  assumes "1000 \<le> n" "n \<le> 9999"
  shows "zpad 4 n = [digit_char (n div 1000), digit_char (n div 100 mod 10),
                     digit_char (n div 10 mod 10), digit_char (n mod 10)]"
proof -
  have a: "\<not> n < 10" "\<not> n div 10 < 10" "\<not> n div 100 < 10" "n div 1000 < 10"
    using assms by simp_all
  have b: "n div 10 div 10 = n div 100" "n div 100 div 10 = n div 1000"
    by (simp_all add: div_mult2_eq)
  show ?thesis
    using a
    by (simp add: zpad_def str_nat.simps [of n] str_nat.simps [of "n div 10"]
        str_nat.simps [of "n div 100"] str_nat.simps [of "n div 1000"] b)
qed

lemma zpad4_inj:
  assumes "1000 \<le> a" "a \<le> 9999" "1000 \<le> b" "b \<le> 9999" "zpad 4 a = zpad 4 b"
  shows "a = b"
proof -
  from assms have e: "digit_char (a div 1000) = digit_char (b div 1000)"
    "digit_char (a div 100 mod 10) = digit_char (b div 100 mod 10)"
    "digit_char (a div 10 mod 10) = digit_char (b div 10 mod 10)"
    "digit_char (a mod 10) = digit_char (b mod 10)"
    by (simp_all add: zpad4)
  have "a div 1000 < 10" "b div 1000 < 10" using assms by simp_all
  with e have "a div 1000 = b div 1000" "a div 100 mod 10 = b div 100 mod 10"
    "a div 10 mod 10 = b div 10 mod 10" "a mod 10 = b mod 10"
    by (simp_all add: digit_char_eq)
  then have h: "(a div 100) div 10 = (b div 100) div 10" "(a div 100) mod 10 = (b div 100) mod 10"
    "(a div 10) mod 10 = (b div 10) mod 10" "a mod 10 = b mod 10"
    by (simp_all add: div_mult2_eq [symmetric])
  from h(1,2) have "a div 100 = b div 100"
    by (metis div_mult_mod_eq)
  then have "(a div 10) div 10 = (b div 10) div 10"
    by (simp add: div_mult2_eq [symmetric])
  with h(3) have "a div 10 = b div 10"
    by (metis div_mult_mod_eq)
  with h(4) show ?thesis
    by (metis div_mult_mod_eq)
qed

lemma stamp_inj:
  assumes "valid_datetime a" "valid_datetime b" "strftime_stamp a = strftime_stamp b"
  shows "same_second a b"
proof -
  have va: "year a \<ge> 1000" "year a \<le> 9999" "month a < 100" "day a < 100" "hour a < 100"
    "minute a < 100" "second a < 100"
    using assms(1) by (simp_all add: valid_datetime_def)
  have vb: "year b \<ge> 1000" "year b \<le> 9999" "month b < 100" "day b < 100" "hour b < 100"
    "minute b < 100" "second b < 100"
    using assms(2) by (simp_all add: valid_datetime_def)
  have l: "length (zpad 4 (year a)) = length (zpad 4 (year b))"
    "length (zpad 2 (month a)) = length (zpad 2 (month b))"
    "length (zpad 2 (day a)) = length (zpad 2 (day b))"
    "length (zpad 2 (hour a)) = length (zpad 2 (hour b))"
    "length (zpad 2 (minute a)) = length (zpad 2 (minute b))"
    using va vb by (simp_all add: zpad2 zpad4)
  from assms(3) l have "zpad 4 (year a) = zpad 4 (year b)" "zpad 2 (month a) = zpad 2 (month b)"
    "zpad 2 (day a) = zpad 2 (day b)" "zpad 2 (hour a) = zpad 2 (hour b)"
    "zpad 2 (minute a) = zpad 2 (minute b)" "zpad 2 (second a) = zpad 2 (second b)"
    unfolding strftime_stamp_def by simp_all
  then have "year a = year b" "month a = month b" "day a = day b" "hour a = hour b"
    "minute a = minute b" "second a = second b"
    using va vb by (blast intro: zpad2_inj zpad4_inj)+
  then show ?thesis
    unfolding same_second_def by simp
qed

lemma stamp_same: "same_second a b \<Longrightarrow> strftime_stamp a = strftime_stamp b"
  by (simp add: same_second_def strftime_stamp_def)

lemma path_join_same_head:
  assumes "f \<noteq> []" "g \<noteq> []" "hd f = hd g"
  shows "path_join a f = path_join a g \<longleftrightarrow> f = g"
  using assms by (auto simp: path_join_def)

lemma csv_file_init:
  "csv_file (CSVReporter_init root now name)
     = path_join (path_join root ''reports'') (name @ ''_'' @ strftime_stamp now @ ''.csv'')"
  by (simp add: CSVReporter_init_def Let_def)

text \<open>
  C4 as stated fails: the time stamp in the file name has a resolution of one second, so
  two reporters with the same report name created within the same second (here half a
  second apart) get the same file name, and the second \<open>open(..., 'w')\<close> replaces
  the first report.
\<close>

theorem report_file_names_same_second:
  "run_start_a \<noteq> run_start_b
   \<and> csv_file (CSVReporter_init ''/repo'' run_start_a ''e2e_checkout_test'' :: int reporter)
     = csv_file (CSVReporter_init ''/repo'' run_start_b ''e2e_checkout_test'' :: int reporter)"
  by (simp add: csv_file_init run_start_a_def run_start_b_def strftime_stamp_def)

text \<open>
  C4, amended. Two reporters with the same report name, created at valid times of the
  years 1000 to 9999, get the same file name exactly when they are created within the
  same second: runs started in different seconds never share a report file.
\<close>

theorem report_file_names_distinct_seconds:
  assumes "valid_datetime a" "valid_datetime b"
  shows "csv_file (CSVReporter_init root a name :: 'd reporter)
           = csv_file (CSVReporter_init root b name :: 'd reporter)
         \<longleftrightarrow> same_second a b"
proof -
  let ?f = "\<lambda>d. name @ ''_'' @ strftime_stamp d @ ''.csv''"
  have "hd (?f a) = hd (?f b)" by (cases name) simp_all
  then have "path_join (path_join root ''reports'') (?f a) = path_join (path_join root ''reports'') (?f b)
      \<longleftrightarrow> ?f a = ?f b"
    by (intro path_join_same_head) simp_all
  also have "\<dots> \<longleftrightarrow> strftime_stamp a = strftime_stamp b" by simp
  also have "\<dots> \<longleftrightarrow> same_second a b"
    using assms stamp_inj stamp_same by blast
  finally show ?thesis
    by (simp only: csv_file_init)
qed

theorem report_file_names_distinct_seconds_witness:
  "valid_datetime run_start_a \<and> valid_datetime run_start_c
   \<and> csv_file (CSVReporter_init ''/repo'' run_start_a ''e2e_checkout_test'' :: int reporter)
     \<noteq> csv_file (CSVReporter_init ''/repo'' run_start_c ''e2e_checkout_test'' :: int reporter)
   \<and> csv_file (CSVReporter_init ''/repo'' run_start_c ''e2e_checkout_test'' :: int reporter)
     = ''/repo/reports/e2e_checkout_test_20240517_093008.csv''"
proof -
  have v: "valid_datetime run_start_a" "valid_datetime run_start_c"
    by (simp_all add: valid_datetime_def run_start_a_def run_start_c_def)
  have n: "\<not> same_second run_start_a run_start_c"
    by (simp add: same_second_def run_start_a_def run_start_c_def)
  have d: "csv_file (CSVReporter_init ''/repo'' run_start_a ''e2e_checkout_test'' :: int reporter)
     \<noteq> csv_file (CSVReporter_init ''/repo'' run_start_c ''e2e_checkout_test'' :: int reporter)"
    using report_file_names_distinct_seconds [OF v, of "''/repo''" "''e2e_checkout_test''"] n
    by blast
  have c: "csv_file (CSVReporter_init ''/repo'' run_start_c ''e2e_checkout_test'' :: int reporter)
     = ''/repo/reports/e2e_checkout_test_20240517_093008.csv''"
    by (simp add: csv_file_init run_start_a_def run_start_c_def strftime_stamp_def zpad2 zpad4
        path_join_def digit_char_def)
  show ?thesis using v d c by blast
qed

section \<open>Filling the billing address\<close>

lemma perform_all_Inr_ok: "perform ok_browser (map Inr as) = (as, None)"
  by (induction as) (simp_all add: ok_browser_def)

lemma perform_error_from_browser:
  "snd (perform b (map Inr as)) = Some e \<Longrightarrow> \<exists>a \<in> set as. b a = Some e"
proof (induction as)
  case Nil
  then show ?case by simp
next
  case (Cons a as)
  then show ?case
    by (cases "b a"; cases "perform b (map Inr as)") auto
qed


lemma fill_billing_address_block:
  "fill_billing_address b d = perform b (map Inr (billing_actions d))"
  by (simp add: fill_billing_address_def billing_actions_def optional_field_def dict_truthy_def
      dict_item_def split: option.split)

text \<open>
  C10. \<open>fill_billing_address\<close> is total over its address dict. On a browser where every
  action completes it completes for every dict, having typed \<open>d.get(k, '')\<close> into the
  seven plain fields (the empty string for a missing key), selected
  \<open>d.get('country', 'United States')\<close>, and typed company and address2 only when the
  key is present with a non-empty value. On any browser, an exception it raises is one
  the browser raised on one of these actions: a \<open>KeyError\<close> never comes from the dict.
\<close>

theorem fill_billing_address_total:
  "fill_billing_address ok_browser d = (billing_actions d, None)
   \<and> (snd (fill_billing_address b d) = Some e \<longrightarrow> (\<exists>a \<in> set (billing_actions d). b a = Some e))
   \<and> ((\<forall>a k. b a \<noteq> Some (KeyError k)) \<longrightarrow> (\<forall>k. snd (fill_billing_address b d) \<noteq> Some (KeyError k)))"
proof -
  have 1: "fill_billing_address ok_browser d = (billing_actions d, None)"
    by (simp add: fill_billing_address_block perform_all_Inr_ok)
  have 2: "snd (fill_billing_address b d) = Some e \<longrightarrow> (\<exists>a \<in> set (billing_actions d). b a = Some e)"
    using perform_error_from_browser [of b "billing_actions d" e]
    by (simp add: fill_billing_address_block)
  have 3: "(\<forall>a k. b a \<noteq> Some (KeyError k)) \<longrightarrow> (\<forall>k. snd (fill_billing_address b d) \<noteq> Some (KeyError k))"
    using perform_error_from_browser [of b "billing_actions d"]
    by (metis fill_billing_address_block)
  show ?thesis using 1 2 3 by blast
qed

theorem fill_billing_address_total_witness:
  "fill_billing_address ok_browser city_only_address
     = ([SendKeys BILLING_FIRST_NAME '''', SendKeys BILLING_LAST_NAME '''', SendKeys BILLING_EMAIL '''',
         SelectDropdownByText BILLING_COUNTRY ''United States'', SendKeys BILLING_CITY ''NYC'',
         SendKeys BILLING_ADDRESS1 '''', SendKeys BILLING_ZIP '''', SendKeys BILLING_PHONE ''''], None)
   \<and> (\<exists>a. city_timeout_browser a = Some (TimeoutException ''Message: ''))
   \<and> snd (fill_billing_address city_timeout_browser city_only_address) \<noteq> Some (KeyError ''company'')"
proof -
  have a: "billing_actions city_only_address
     = [SendKeys BILLING_FIRST_NAME '''', SendKeys BILLING_LAST_NAME '''', SendKeys BILLING_EMAIL '''',
         SelectDropdownByText BILLING_COUNTRY ''United States'', SendKeys BILLING_CITY ''NYC'',
         SendKeys BILLING_ADDRESS1 '''', SendKeys BILLING_ZIP '''', SendKeys BILLING_PHONE '''']"
    by (simp add: billing_actions_def city_only_address_def dict_get_def optional_field_def)
  have h: "\<forall>a k. city_timeout_browser a \<noteq> Some (KeyError k)"
    by (simp add: city_timeout_browser_def)
  have e: "\<exists>a. city_timeout_browser a = Some (TimeoutException ''Message: '')"
    by (simp add: city_timeout_browser_def)
  note t = fill_billing_address_total [of city_only_address city_timeout_browser]
  from t a have 1: "fill_billing_address ok_browser city_only_address
     = ([SendKeys BILLING_FIRST_NAME '''', SendKeys BILLING_LAST_NAME '''', SendKeys BILLING_EMAIL '''',
         SelectDropdownByText BILLING_COUNTRY ''United States'', SendKeys BILLING_CITY ''NYC'',
         SendKeys BILLING_ADDRESS1 '''', SendKeys BILLING_ZIP '''', SendKeys BILLING_PHONE ''''], None)"
    by simp
  from t h have 2: "snd (fill_billing_address city_timeout_browser city_only_address) \<noteq> Some (KeyError ''company'')"
    by blast
  show ?thesis using 1 e 2 by blast
qed

section \<open>The run of the checkout test\<close>

lemma record_stage_eq:
  "record_stage fo r s =
     (r\<lparr>steps := steps r @ [step_of_stage fo s]\<rparr>,
      case stage_outcome s of Inl e \<Rightarrow> Some e | Inr det \<Rightarrow> None)"
  by (cases "stage_outcome s") (simp_all add: record_stage_def step_of_stage_def add_step_def)

lemma run_stages_succeeded:
  "succeeded s \<Longrightarrow> run_stages fo r (s # ss) = run_stages fo (r\<lparr>steps := steps r @ [step_of_stage fo s]\<rparr>) ss"
  by (cases "stage_outcome s") (simp_all add: record_stage_eq succeeded_def)

lemma run_stages_failed:
  "stage_outcome s = Inl e \<Longrightarrow> run_stages fo r (s # ss) = (r\<lparr>steps := steps r @ [step_of_stage fo s]\<rparr>, Some e)"
  by (simp add: record_stage_eq)

lemma not_succeeded: "\<not> succeeded s \<Longrightarrow> \<exists>e. stage_outcome s = Inl e"
  by (cases "stage_outcome s") (simp_all add: succeeded_def)

lemma run_stages_shape:
  "run_stages fo r ss =
     (r\<lparr>steps := steps r @ map (step_of_stage fo) (take (recorded_count ss) ss)\<rparr>, first_failure ss)"
proof (induction ss arbitrary: r)
  case Nil
  show ?case by (simp add: recorded_count_def first_failure_def)
next
  case (Cons s ss)
  show ?case
  proof (cases "succeeded s")
    case True
    have "run_stages fo r (s # ss) = run_stages fo (r\<lparr>steps := steps r @ [step_of_stage fo s]\<rparr>) ss"
      using True by (rule run_stages_succeeded)
    also have "\<dots> = (r\<lparr>steps := steps r @ step_of_stage fo s # map (step_of_stage fo) (take (recorded_count ss) ss)\<rparr>,
        first_failure ss)"
      by (simp add: Cons.IH)
    finally show ?thesis
      using True by (simp add: recorded_count_def first_failure_def Let_def)
  next
    case False
    then obtain e where e: "stage_outcome s = Inl e"
      using not_succeeded by blast
    have "run_stages fo r (s # ss) = (r\<lparr>steps := steps r @ [step_of_stage fo s]\<rparr>, Some e)"
      using e by (rule run_stages_failed)
    then show ?thesis
      using False e by (simp add: recorded_count_def first_failure_def)
  qed
qed

lemma recorded_count_le: "recorded_count ss \<le> length ss"
  using length_takeWhile_le [of succeeded ss]
  by (simp add: recorded_count_def Let_def)

lemma recorded_count_pos: "ss \<noteq> [] \<Longrightarrow> 1 \<le> recorded_count ss"
  by (cases ss) (simp_all add: recorded_count_def Let_def)

lemma recorded_prefix_succeeded:
  assumes "Suc i < recorded_count ss"
  shows "succeeded (ss ! i)"
proof -
  from assms have "i < length (takeWhile succeeded ss)"
    by (simp add: recorded_count_def Let_def split: if_splits)
  then show ?thesis
    by (metis nth_mem set_takeWhileD takeWhile_nth)
qed

lemma first_failure_None:
  "first_failure ss = None \<longleftrightarrow> list_all succeeded ss"
proof (cases "dropWhile succeeded ss")
  case Nil
  then have a: "\<forall>x\<in>set ss. succeeded x"
    by (simp only: dropWhile_eq_Nil_conv)
  have "first_failure ss = None"
    unfolding first_failure_def Nil by simp
  with a show ?thesis
    by (simp add: list_all_iff)
next
  case (Cons s rest)
  then have n: "\<not> succeeded s"
    by (metis hd_dropWhile list.distinct(1) list.sel(1))
  then obtain e where "stage_outcome s = Inl e"
    using not_succeeded by blast
  moreover have "s \<in> set ss"
    by (metis Cons list.set_intros(1) set_dropWhileD)
  ultimately show ?thesis
    using Cons n by (auto simp: first_failure_def list_all_iff)
qed

lemma all_succeeded_count:
  assumes "list_all succeeded ss"
  shows "recorded_count ss = length ss"
proof -
  from assms have t: "takeWhile succeeded ss = ss"
    by (simp add: list_all_iff)
  show ?thesis
    unfolding recorded_count_def Let_def t by simp
qed

lemma first_failure_Some:
  assumes "first_failure ss = Some e"
  shows "recorded_count ss = Suc (length (takeWhile succeeded ss))
         \<and> length (takeWhile succeeded ss) < length ss
         \<and> stage_outcome (ss ! length (takeWhile succeeded ss)) = Inl e"
proof -
  from assms obtain s rest where d: "dropWhile succeeded ss = s # rest"
    by (cases "dropWhile succeeded ss") (simp_all add: first_failure_def)
  with assms have o: "stage_outcome s = Inl e"
    by (cases "stage_outcome s") (simp_all add: first_failure_def)
  have a: "ss = takeWhile succeeded ss @ s # rest"
    using d takeWhile_dropWhile_id [of succeeded ss] by simp
  have l: "length (takeWhile succeeded ss) < length ss"
    using arg_cong [OF a, of length] by simp
  have n: "ss ! length (takeWhile succeeded ss) = s"
    using nth_append_length [of "takeWhile succeeded ss" s rest] a by simp
  with o l show ?thesis
    by (simp add: recorded_count_def Let_def)
qed

lemma status_step_of_stage:
  "status (step_of_stage fo s) = (if succeeded s then ''SUCCESS'' else ''FAILED'')"
  by (cases "stage_outcome s") (simp_all add: step_of_stage_def succeeded_def)

lemma number_step_of_stage: "step_number (step_of_stage fo s) = IntCell (stage_number s)"
  by (cases "stage_outcome s") (simp_all add: step_of_stage_def)

lemma error_step_of_stage:
  "stage_outcome s = Inl e \<Longrightarrow> error_message (step_of_stage fo s) = str_exn e"
  by (simp add: step_of_stage_def)

lemma length_stages: "length (stages env) = 9"
  by (simp add: stages_def)

lemma numbers_stages:
  "map stage_number (stages env) = [0, 1, 2, 3, 4, 5, 6, 7, 8]"
  by (simp add: stages_def)

lemma init_fields:
  "steps (CSVReporter_init root now name) = []"
  "wrong_fields (headers (CSVReporter_init root now name)) = []"
  by (simp_all add: CSVReporter_init_def Let_def wrong_fields_def step_keys_def)

lemma flow_failed:
  assumes "first_failure (stages env) = Some e"
  shows "test_end_to_end_checkout_flow fo root now env =
           \<lparr>csv_reporter = (CSVReporter_init root now ''e2e_checkout_test'')
               \<lparr>steps := map (step_of_stage fo) (take (recorded_count (stages env)) (stages env))\<rparr>,
            raised = Some e, report_file = None\<rparr>"
  using assms
  by (simp add: test_end_to_end_checkout_flow_def run_stages_shape init_fields)

lemma flow_completed:
  assumes "first_failure (stages env) = None"
  shows "test_end_to_end_checkout_flow fo root now env =
           (let r = add_summary fo ((CSVReporter_init root now ''e2e_checkout_test'')
                       \<lparr>steps := map (step_of_stage fo) (stages env)\<rparr>)
            in case open_error env of
                 Some e \<Rightarrow> \<lparr>csv_reporter = r, raised = Some e, report_file = None\<rparr>
               | None \<Rightarrow> \<lparr>csv_reporter = r, raised = None,
                           report_file = Some (csv_file r, csv_text fo r)\<rparr>)"
proof -
  have c: "recorded_count (stages env) = length (stages env)"
    using assms by (simp add: first_failure_None all_succeeded_count)
  have h: "wrong_fields (headers (add_summary fo ((CSVReporter_init root now ''e2e_checkout_test'')
                       \<lparr>steps := map (step_of_stage fo) (stages env)\<rparr>))) = []"
    by (simp add: add_summary_def Let_def init_fields)
  show ?thesis
    using assms h
    by (simp add: test_end_to_end_checkout_flow_def run_stages_shape init_fields c
        generate_report_def Let_def split: option.split)
qed

lemma perform_completes:
  "snd (perform b (map Inr as)) = None \<Longrightarrow> list_all (\<lambda>a. b a = None) as"
proof (induction as)
  case Nil
  show ?case by simp
next
  case (Cons a as)
  then show ?case
    by (cases "b a"; cases "perform b (map Inr as)") auto
qed

lemma step0_ok:
  "step0_body env = Inr d \<Longrightarrow> navigate_to_registration_page env = None \<and> register_new_user env = Inr True"
  by (auto simp: step0_body_def bind_exn_def check_def py_assert_def
      split: sum.splits option.splits if_splits)

lemma step1_ok:
  "step1_body env = Inr d \<Longrightarrow> is_logged_in env \<longrightarrow> logout env = Inr True"
  by (auto simp: step1_body_def bind_exn_def py_assert_def split: sum.splits if_splits)

lemma step2_ok: "step2_body env = Inr d \<Longrightarrow> login env = Inr True"
  by (auto simp: step2_body_def bind_exn_def py_assert_def split: sum.splits if_splits)

lemma step3_ok: "step3_body env = Inr d \<Longrightarrow> 0 < added_count env"
  by (auto simp: step3_body_def bind_exn_def py_assert_def split: sum.splits if_splits)

lemma step4_ok:
  "step4_body env = Inr d \<Longrightarrow> navigate_to_shopping_cart env = None \<and> 0 < get_cart_items_count env"
  by (auto simp: step4_body_def bind_exn_def check_def py_assert_def Let_def
      split: sum.splits option.splits if_splits)

lemma step5_ok: "step5_body env = Inr d \<Longrightarrow> proceed_to_checkout env = None"
  by (auto simp: step5_body_def bind_exn_def check_def split: sum.splits option.splits)

lemma step6_ok:
  assumes "step6_body env = Inr d"
  shows "list_all (\<lambda>a. checkout_browser env a = None)
           (billing_actions (billing_address env) @ [Click BILLING_CONTINUE_BUTTON])"
proof -
  from assms have "snd (fill_billing_address (checkout_browser env) (billing_address env)) = None"
    and c: "checkout_browser env (Click BILLING_CONTINUE_BUTTON) = None"
    by (auto simp: step6_body_def bind_exn_def check_def click_billing_continue_def
        split: sum.splits option.splits)
  then have "list_all (\<lambda>a. checkout_browser env a = None) (billing_actions (billing_address env))"
    by (simp add: fill_billing_address_block perform_completes)
  with c show ?thesis by simp
qed

lemma step7_ok:
  assumes "step7_body env = Inr d"
  shows "list_all (\<lambda>a. checkout_browser env a = None)
           [Click SHIPPING_CONTINUE_BUTTON, Click GROUND_SHIPPING, Click SHIPPING_METHOD_CONTINUE,
            Click CASH_ON_DELIVERY, Click PAYMENT_METHOD_CONTINUE, Click PAYMENT_INFO_CONTINUE,
            Click CONFIRM_BUTTON]"
proof -
  have g: "lower ''ground'' = ''ground''" "lower ''cash'' = ''cash''"
    by (simp_all add: lower_def lower_char_def)
  show ?thesis
    using assms
    by (auto simp: step7_body_def bind_exn_def check_def then_do_def Let_def g
        click_shipping_continue_def select_shipping_method_def click_shipping_method_continue_def
        select_payment_method_def click_payment_method_continue_def
        click_payment_info_continue_def click_confirm_order_def
        split: sum.splits option.splits)
qed

lemma step8_ok: "step8_body env = Inr d \<Longrightarrow> \<exists>message. order_success_text env = Inr message"
proof (cases "order_success_text env")
  case (Inl e)
  assume "step8_body env = Inr d"
  with Inl show ?thesis
    by (simp add: step8_body_def get_order_success_message_def bind_exn_def py_assert_def
        lower_def startswith_def)
next
  case (Inr m)
  then show ?thesis by blast
qed

lemma succeeded_iff: "succeeded s \<longleftrightarrow> (\<exists>d. stage_outcome s = Inr d)"
  by (cases "stage_outcome s") (simp_all add: succeeded_def)

lemma all_stages_succeeded:
  assumes "list_all succeeded (stages env)"
  shows "\<exists>d0 d1 d2 d3 d4 d5 d6 d7 d8.
     step0_body env = Inr d0 \<and> step1_body env = Inr d1 \<and> step2_body env = Inr d2 \<and>
     step3_body env = Inr d3 \<and> step4_body env = Inr d4 \<and> step5_body env = Inr d5 \<and>
     step6_body env = Inr d6 \<and> step7_body env = Inr d7 \<and> step8_body env = Inr d8"
  using assms by (simp add: stages_def succeeded_iff)

lemma completed_calls:
  assumes "list_all succeeded (stages env)" "open_error env = None"
  shows "page_calls_completed env"
proof -
  from all_stages_succeeded [OF assms(1)] obtain d0 d1 d2 d3 d4 d5 d6 d7 d8 where
    b: "step0_body env = Inr d0" "step1_body env = Inr d1" "step2_body env = Inr d2"
       "step3_body env = Inr d3" "step4_body env = Inr d4" "step5_body env = Inr d5"
       "step6_body env = Inr d6" "step7_body env = Inr d7" "step8_body env = Inr d8"
    by blast
  have "list_all (\<lambda>a. checkout_browser env a = None)
          (billing_actions (billing_address env) @ wizard_clicks)"
    using step6_ok [OF b(7)] step7_ok [OF b(8)] by (simp add: wizard_clicks_def)
  then show ?thesis
    unfolding page_calls_completed_def
    using step0_ok [OF b(1)] step1_ok [OF b(2)] step2_ok [OF b(3)] step3_ok [OF b(4)]
      step4_ok [OF b(5)] step5_ok [OF b(6)] step8_ok [OF b(9)] assms(2)
    by blast
qed

lemma summary_appended: "steps (add_summary fo r) = steps r @ [last (steps (add_summary fo r))]"
  by (simp add: add_summary_def Let_def)

lemma first_failure_at:
  assumes "k < length ss" "list_all succeeded (take k ss)" "stage_outcome (ss ! k) = Inl e"
  shows "first_failure ss = Some e \<and> recorded_count ss = Suc k"
proof -
  have n: "\<not> succeeded (ss ! k)"
    using assms(3) by (simp add: succeeded_def)
  have p: "\<And>i. i < k \<Longrightarrow> i < length ss \<Longrightarrow> succeeded (ss ! i)"
    using assms(2) by (simp add: list_all_length)
  have t: "takeWhile succeeded ss = take k ss"
    using p n by (rule takeWhile_eq_take_P_nth)
  then have l: "length (takeWhile succeeded ss) = k"
    using assms(1) by simp
  have d: "dropWhile succeeded ss = drop k ss"
    using t takeWhile_dropWhile_id [of succeeded ss] append_take_drop_id [of k ss]
    by (metis append_eq_append_conv)
  have "drop k ss = ss ! k # drop (Suc k) ss"
    using assms(1) by (simp add: Cons_nth_drop_Suc)
  with d assms(3) have "first_failure ss = Some e"
    by (simp add: first_failure_def)
  moreover have "recorded_count ss = Suc k"
    using l assms(1) by (simp add: recorded_count_def Let_def)
  ultimately show ?thesis by simp
qed

lemma failed_run_steps:
  fixes fo :: "'d float_ops" and root :: string and now :: datetime and env :: "'d env"
  assumes "first_failure (stages env) = Some e"
  defines "n \<equiv> recorded_count (stages env)"
  defines "st \<equiv> steps (csv_reporter (test_end_to_end_checkout_flow fo root now env))"
  shows "1 \<le> n" "n \<le> 9" "length st = n"
    "map step_number st = take n [IntCell 0, IntCell 1, IntCell 2, IntCell 3, IntCell 4,
                                  IntCell 5, IntCell 6, IntCell 7, IntCell 8]"
    "list_all (\<lambda>s. status s = ''SUCCESS'') (take (n - 1) st)"
    "status (st ! (n - 1)) = ''FAILED''"
    "error_message (st ! (n - 1)) = str_exn e"
proof -
  let ?ss = "stages env"
  have st: "st = map (step_of_stage fo) (take n ?ss)"
    unfolding st_def n_def by (simp add: flow_failed [OF assms(1)])
  from first_failure_Some [OF assms(1)]
  have n: "n = Suc (length (takeWhile succeeded ?ss))"
    and o: "stage_outcome (?ss ! (n - 1)) = Inl e"
    unfolding n_def by simp_all
  show 1: "1 \<le> n" using n by simp
  show 2: "n \<le> 9"
    unfolding n_def using recorded_count_le [of ?ss] by (simp add: length_stages)
  show 3: "length st = n"
    using 2 by (simp add: st length_stages)
  have "map step_number st = map IntCell (take n (map stage_number ?ss))"
    by (simp add: st number_step_of_stage take_map comp_def)
  also have "\<dots> = take n (map IntCell [0, 1, 2, 3, 4, 5, 6, 7, 8])"
    by (simp only: numbers_stages take_map)
  finally show "map step_number st = take n [IntCell 0, IntCell 1, IntCell 2, IntCell 3, IntCell 4,
                                  IntCell 5, IntCell 6, IntCell 7, IntCell 8]"
    by simp
  have "\<And>i. i < n - 1 \<Longrightarrow> status (st ! i) = ''SUCCESS''"
  proof -
    fix i assume i: "i < n - 1"
    then have "Suc i < recorded_count ?ss" unfolding n_def by simp
    then have "succeeded (?ss ! i)" by (rule recorded_prefix_succeeded)
    moreover have "st ! i = step_of_stage fo (?ss ! i)"
      using i 2 by (simp add: st length_stages)
    ultimately show "status (st ! i) = ''SUCCESS''"
      by (simp add: status_step_of_stage)
  qed
  then show "list_all (\<lambda>s. status s = ''SUCCESS'') (take (n - 1) st)"
    using 3 by (simp add: list_all_length)
  have l: "st ! (n - 1) = step_of_stage fo (?ss ! (n - 1))"
    using 1 2 by (simp add: st length_stages)
  have f: "\<not> succeeded (stages env ! (n - 1))"
    by (simp only: succeeded_def o sum.case simp_thms)
  show "status (st ! (n - 1)) = ''FAILED''"
    unfolding l status_step_of_stage using f by (simp only: if_False)
  show "error_message (st ! (n - 1)) = str_exn e"
    unfolding l using o by (rule error_step_of_stage)
qed

lemma completed_run_steps:
  fixes fo :: "'d float_ops" and root :: string and now :: datetime and env :: "'d env"
  assumes "first_failure (stages env) = None"
  defines "st \<equiv> steps (csv_reporter (test_end_to_end_checkout_flow fo root now env))"
  shows "length st = 10"
    "map step_number (take 9 st) = [IntCell 0, IntCell 1, IntCell 2, IntCell 3, IntCell 4,
                                    IntCell 5, IntCell 6, IntCell 7, IntCell 8]"
    "list_all (\<lambda>s. status s = ''SUCCESS'') (take 9 st)"
    "step_name (st ! 9) = ''SUMMARY''" "step_number (st ! 9) = StrCell ''''"
    "status (st ! 9) = ''PASSED''"
proof -
  let ?ss = "stages env"
  let ?r = "(CSVReporter_init root now ''e2e_checkout_test'' :: 'd reporter)
              \<lparr>steps := map (step_of_stage fo) ?ss\<rparr>"
  have a: "list_all succeeded ?ss"
    using assms(1) by (simp add: first_failure_None)
  have st: "st = map (step_of_stage fo) ?ss @ [last (steps (add_summary fo ?r))]"
    unfolding st_def using summary_appended [of fo ?r]
    by (simp add: flow_completed [OF assms(1)] Let_def split: option.split)
  show "length st = 10" by (simp add: st length_stages)
  have t: "take 9 st = map (step_of_stage fo) ?ss"
    by (simp add: st length_stages)
  have "map step_number (take 9 st) = map IntCell (map stage_number ?ss)"
    by (simp add: t number_step_of_stage comp_def)
  then show "map step_number (take 9 st) = [IntCell 0, IntCell 1, IntCell 2, IntCell 3, IntCell 4,
                                    IntCell 5, IntCell 6, IntCell 7, IntCell 8]"
    by (simp add: numbers_stages)
  show s: "list_all (\<lambda>s. status s = ''SUCCESS'') (take 9 st)"
    using a by (simp add: t list_all_iff status_step_of_stage)
  have n: "st ! 9 = last (steps (add_summary fo ?r))"
    by (simp add: st nth_append length_stages)
  have "list_all (\<lambda>s. status s = ''SUCCESS'') (steps ?r)"
    using s t by simp
  then show "step_name (st ! 9) = ''SUMMARY''" "step_number (st ! 9) = StrCell ''''"
    "status (st ! 9) = ''PASSED''"
    by (simp_all add: n summary_last)
qed

lemma raised_None:
  assumes "raised (test_end_to_end_checkout_flow fo root now env) = None"
  shows "first_failure (stages env) = None \<and> open_error env = None"
proof (cases "first_failure (stages env)")
  case None
  with assms show ?thesis
    by (simp add: flow_completed Let_def split: option.splits)
next
  case (Some e)
  with assms show ?thesis
    by (simp add: flow_failed)
qed

lemma halts_at_first_failure:
  fixes fo :: "'d float_ops" and root :: string and now :: datetime and env :: "'d env"
  assumes "k < 9" "list_all succeeded (take k (stages env))" "stage_outcome (stages env ! k) = Inl e"
  defines "res \<equiv> test_end_to_end_checkout_flow fo root now env"
  shows "length (steps (csv_reporter res)) = Suc k \<and> status (steps (csv_reporter res) ! k) = ''FAILED''
         \<and> error_message (steps (csv_reporter res) ! k) = str_exn e
         \<and> raised res = Some e \<and> report_file res = None"
proof -
  have f: "first_failure (stages env) = Some e" and c: "recorded_count (stages env) = Suc k"
    using first_failure_at [of k "stages env" e] assms(1-3) by (simp_all add: length_stages)
  note s = failed_run_steps(3,6,7) [OF f, of fo root now, unfolded c]
  have "raised res = Some e" "report_file res = None"
    unfolding res_def by (simp_all add: flow_failed [OF f])
  with s show ?thesis
    unfolding res_def by simp
qed

text \<open>
  C1. In every run of the test, whatever the page objects answer: between one and nine
  steps are recorded, numbered 0, 1, 2, ... without gap or repetition; every step
  before the last recorded one is SUCCESS; and either the last recorded step is FAILED,
  nothing is appended after it and the exception is re-raised, or
  all nine are SUCCESS and the summary row (with an empty step number) follows them. The
  run stops at the first step whose body raises: that step is recorded FAILED with
  \<open>str(e)\<close>. A run that ends without an exception is one in which every call on a page
  object outside the product loop returned without raising and every assertion held;
  only inside the product loop is an exception caught without ending the run.
\<close>

theorem checkout_flow_steps:
  fixes fo :: "'d float_ops" and root :: string and now :: datetime and env :: "'d env"
  shows
  "let res = test_end_to_end_checkout_flow fo root now env; st = steps (csv_reporter res) in
     (\<exists>n. 1 \<le> n \<and> n \<le> 9
        \<and> map step_number (take n st)
            = take n [IntCell 0, IntCell 1, IntCell 2, IntCell 3, IntCell 4,
                      IntCell 5, IntCell 6, IntCell 7, IntCell 8]
        \<and> list_all (\<lambda>s. status s = ''SUCCESS'') (take (n - 1) st)
        \<and> ((status (st ! (n - 1)) = ''FAILED'' \<and> length st = n
              \<and> raised res \<noteq> None)
           \<or> (status (st ! (n - 1)) = ''SUCCESS'' \<and> n = 9 \<and> length st = 10
              \<and> step_name (st ! 9) = ''SUMMARY'' \<and> step_number (st ! 9) = StrCell '''')))
   \<and> (\<forall>k e. k < 9 \<and> list_all succeeded (take k (stages env))
              \<and> stage_outcome (stages env ! k) = Inl e
          \<longrightarrow> length st = Suc k \<and> status (st ! k) = ''FAILED''
              \<and> error_message (st ! k) = str_exn e \<and> raised res = Some e)
   \<and> (raised res = None \<longrightarrow> page_calls_completed env)"
proof -
  define res where "res = test_end_to_end_checkout_flow fo root now env"
  define st where "st = steps (csv_reporter res)"
  have shape: "\<exists>n. 1 \<le> n \<and> n \<le> 9
        \<and> map step_number (take n st)
            = take n [IntCell 0, IntCell 1, IntCell 2, IntCell 3, IntCell 4,
                      IntCell 5, IntCell 6, IntCell 7, IntCell 8]
        \<and> list_all (\<lambda>s. status s = ''SUCCESS'') (take (n - 1) st)
        \<and> ((status (st ! (n - 1)) = ''FAILED'' \<and> length st = n
              \<and> raised res \<noteq> None)
           \<or> (status (st ! (n - 1)) = ''SUCCESS'' \<and> n = 9 \<and> length st = 10
              \<and> step_name (st ! 9) = ''SUMMARY'' \<and> step_number (st ! 9) = StrCell ''''))"
  proof (cases "first_failure (stages env)")
    case (Some e)
    note s = failed_run_steps(1,2) [OF Some]
      failed_run_steps(3-6) [OF Some, of fo root now, folded res_def st_def]
    have r: "raised res = Some e" "report_file res = None"
      unfolding res_def by (simp_all add: flow_failed [OF Some])
    have "take (recorded_count (stages env)) st = st"
      using s(3) by simp
    with s r show ?thesis
      by (intro exI [of _ "recorded_count (stages env)"]) simp
  next
    case None
    note s = completed_run_steps(1-5) [OF None, of fo root now, folded res_def st_def]
    have "status (st ! (9 - 1)) = ''SUCCESS''"
      using s(1,3) by (simp add: list_all_length)
    moreover have "list_all (\<lambda>s. status s = ''SUCCESS'') (take (9 - 1) st)"
      using s(1,3) by (simp add: list_all_length)
    ultimately show ?thesis
      using s by (intro exI [of _ 9]) simp
  qed
  have halt: "\<forall>k e. k < 9 \<and> list_all succeeded (take k (stages env))
              \<and> stage_outcome (stages env ! k) = Inl e
          \<longrightarrow> length st = Suc k \<and> status (st ! k) = ''FAILED''
              \<and> error_message (st ! k) = str_exn e \<and> raised res = Some e"
    unfolding st_def res_def using halts_at_first_failure [of _ env _ fo root now] by blast
  have only: "raised res = None \<longrightarrow> page_calls_completed env"
    unfolding res_def using raised_None [of fo root now env] completed_calls [of env]
    by (simp add: first_failure_None)
  show ?thesis
    using shape halt only unfolding Let_def res_def st_def by blast
qed

lemma happy_credentials:
  "dict_item (credentials happy_env) ''first_name'' = Inr ''Test''"
  "dict_item (credentials happy_env) ''last_name'' = Inr ''User''"
  "dict_item (credentials happy_env) ''email'' = Inr ''testuser_1715938207_4821@example.com''"
  "dict_item (credentials happy_env) ''password'' = Inr ''Test@123''"
  by (simp_all add: credentials_def get_user_credentials_def happy_env_def dict_item_def)

lemma happy_step0: "step0_body happy_env = Inr ''Registered user: testuser_1715938207_4821@example.com''"
  by (simp add: step0_body_def happy_credentials bind_exn_def check_def py_assert_def)
    (simp add: happy_env_def)

lemma happy_step1: "step1_body happy_env = Inr ''User logged out successfully after registration''"
  by (simp add: step1_body_def bind_exn_def py_assert_def happy_env_def)

lemma happy_step2:
  "step2_body happy_env = Inr ''Successfully logged in with new credentials: testuser_1715938207_4821@example.com''"
  by (simp add: step2_body_def happy_credentials bind_exn_def py_assert_def)
    (simp add: happy_env_def)

lemma happy_added: "added_count happy_env = 3"
  by (simp add: added_count_def add_product_def happy_env_def)

lemma str_int_digit: "0 \<le> n \<Longrightarrow> n < 10 \<Longrightarrow> str_int n = [digit_char (nat n)]"
  by (simp add: str_int_def str_nat.simps)

lemma happy_step3: "step3_body happy_env = Inr ''Added 3 products to cart''"
  by (simp add: step3_body_def happy_added bind_exn_def py_assert_def str_int_digit digit_char_def)

lemma happy_total: "get_cart_total happy_cart = ''$2,015.00''"
  by (simp add: get_cart_total_def total_locators_def happy_cart_def)

lemma happy_step4: "step4_body happy_env = Inr ''Cart items: 3, Total: $2,015.00''"
proof -
  have "cart_page happy_env = happy_cart" "navigate_to_shopping_cart happy_env = None"
    "get_cart_items_count happy_env = 3"
    by (simp_all add: happy_env_def)
  then show ?thesis
    by (simp add: step4_body_def bind_exn_def check_def py_assert_def happy_total
        str_int_digit digit_char_def)
qed

lemma happy_step5: "step5_body happy_env = Inr ''Successfully navigated to checkout''"
  by (simp add: step5_body_def bind_exn_def check_def happy_env_def)

lemma happy_step6: "step6_body happy_env = Inr ''Billing address: NYC, United States''"
proof -
  have b: "checkout_browser happy_env = ok_browser"
    by (simp add: happy_env_def)
  have f: "snd (fill_billing_address ok_browser (billing_address happy_env)) = None"
    by (simp add: fill_billing_address_block perform_all_Inr_ok)
  have d: "dict_item (billing_address happy_env) ''city'' = Inr ''NYC''"
    "dict_item (billing_address happy_env) ''country'' = Inr ''United States''"
    by (simp_all add: happy_env_def dict_item_def)
  have k: "click_billing_continue ok_browser = None"
    by (simp add: click_billing_continue_def ok_browser_def)
  show ?thesis
    by (simp add: step6_body_def b f d k bind_exn_def check_def)
qed

lemma happy_step7: "step7_body happy_env = Inr ''Shipping: Ground, Payment: Cash on Delivery''"
proof -
  have b: "checkout_browser happy_env = ok_browser"
    by (simp add: happy_env_def)
  show ?thesis
    by (simp add: step7_body_def b bind_exn_def check_def then_do_def Let_def ok_browser_def
        click_shipping_continue_def select_shipping_method_def click_shipping_method_continue_def
        select_payment_method_def click_payment_method_continue_def
        click_payment_info_continue_def click_confirm_order_def)
qed

lemma happy_message:
  "contains (lower ''Your order has been successfully processed!'') ''successfully''"
  by (simp add: lower_def lower_char_def startswith_def)

lemma happy_step8:
  "step8_body happy_env = Inr ''Order confirmed. Message: Your order has been successfully processed!...''"
proof -
  have o: "order_success_text happy_env = Inr ''Your order has been successfully processed!''"
    by (simp add: happy_env_def)
  show ?thesis
    by (simp add: step8_body_def o get_order_success_message_def Let_def happy_message
        bind_exn_def py_assert_def)
qed

lemmas happy_steps = happy_step0 happy_step1 happy_step2 happy_step3 happy_step4 happy_step5
  happy_step6 happy_step7 happy_step8

lemma happy_all_succeeded: "list_all succeeded (stages happy_env)"
  by (simp add: stages_def succeeded_def happy_steps)

lemma happy_completes:
  "raised (test_end_to_end_checkout_flow fo root now happy_env) = None"
proof -
  have "first_failure (stages happy_env) = None"
    using happy_all_succeeded by (simp add: first_failure_None)
  moreover have "open_error happy_env = None"
    by (simp add: happy_env_def)
  ultimately show ?thesis
    by (simp add: flow_completed Let_def)
qed

lemma registration_fails_step0:
  "stage_outcome (stages registration_fails_env ! 0) = Inl (AssertionError ''User registration failed'')"
proof -
  have c: "credentials registration_fails_env = credentials happy_env"
    by (simp add: credentials_def registration_fails_env_def)
  have "step0_body registration_fails_env = Inl (AssertionError ''User registration failed'')"
    by (simp add: step0_body_def c happy_credentials bind_exn_def check_def py_assert_def)
      (simp add: registration_fails_env_def happy_env_def)
  then show ?thesis
    by (simp add: stages_def)
qed

theorem checkout_flow_steps_witness:
  "raised (test_end_to_end_checkout_flow centi_ops ''/repo'' run_start_a registration_fails_env)
     = Some (AssertionError ''User registration failed'')
   \<and> length (steps (csv_reporter
        (test_end_to_end_checkout_flow centi_ops ''/repo'' run_start_a registration_fails_env))) = 1
   \<and> raised (test_end_to_end_checkout_flow centi_ops ''/repo'' run_start_a happy_env) = None
   \<and> page_calls_completed happy_env"
proof -
  note f = checkout_flow_steps [of centi_ops "''/repo''" run_start_a registration_fails_env,
      unfolded Let_def]
  have h: "(0::nat) < 9 \<and> list_all succeeded (take 0 (stages registration_fails_env))
      \<and> stage_outcome (stages registration_fails_env ! 0) = Inl (AssertionError ''User registration failed'')"
    using registration_fails_step0 by simp
  from f h have 1: "length (steps (csv_reporter
        (test_end_to_end_checkout_flow centi_ops ''/repo'' run_start_a registration_fails_env))) = Suc 0
    \<and> raised (test_end_to_end_checkout_flow centi_ops ''/repo'' run_start_a registration_fails_env)
       = Some (AssertionError ''User registration failed'')"
    by blast
  note g = checkout_flow_steps [of centi_ops "''/repo''" run_start_a happy_env, unfolded Let_def]
  have c: "raised (test_end_to_end_checkout_flow centi_ops ''/repo'' run_start_a happy_env) = None"
    by (rule happy_completes)
  from g c have 2: "page_calls_completed happy_env"
    by blast
  show ?thesis
    using 1 c 2 by simp
qed

section \<open>Failing runs\<close>

lemma stages_nth:
  "stage_outcome (stages env ! 0) = step0_body env"
  "stage_outcome (stages env ! 1) = step1_body env"
  "stage_outcome (stages env ! 2) = step2_body env"
  "stage_outcome (stages env ! 3) = step3_body env"
  "stage_outcome (stages env ! 4) = step4_body env"
  "stage_outcome (stages env ! 5) = step5_body env"
  "stage_outcome (stages env ! 6) = step6_body env"
  "stage_outcome (stages env ! 7) = step7_body env"
  "stage_outcome (stages env ! 8) = step8_body env"
  by (simp_all add: stages_def)

lemma stages_fail_details:
  "stage_fail_details (stages env ! 3) = ''Only added '' @ str_int (int (added_count env)) @ '' products''"
  "stage_fail_details (stages env ! 4) = ''Failed to validate cart''"
  "stage_fail_details (stages env ! 8) = ''Failed to validate order completion''"
  by (simp_all add: stages_def)

lemma take_stages_succeeded:
  "list_all succeeded (take 3 (stages env)) \<longleftrightarrow>
     succeeded (stages env ! 0) \<and> succeeded (stages env ! 1) \<and> succeeded (stages env ! 2)"
  "list_all succeeded (take 4 (stages env)) \<longleftrightarrow>
     list_all succeeded (take 3 (stages env)) \<and> succeeded (stages env ! 3)"
  "list_all succeeded (take 7 (stages env)) \<longleftrightarrow>
     list_all succeeded (take 4 (stages env)) \<and> succeeded (stages env ! 4)
     \<and> succeeded (stages env ! 5) \<and> succeeded (stages env ! 6)"
  "list_all succeeded (take 8 (stages env)) \<longleftrightarrow>
     list_all succeeded (take 7 (stages env)) \<and> succeeded (stages env ! 7)"
  by (auto simp: stages_def)

lemma details_failed_step:
  fixes fo :: "'d float_ops" and root :: string and now :: datetime and env :: "'d env"
  assumes "k < 9" "list_all succeeded (take k (stages env))" "stage_outcome (stages env ! k) = Inl e"
  shows "details (steps (csv_reporter (test_end_to_end_checkout_flow fo root now env)) ! k)
           = stage_fail_details (stages env ! k)"
proof -
  have f: "first_failure (stages env) = Some e" and c: "recorded_count (stages env) = Suc k"
    using first_failure_at [of k "stages env" e] assms by (simp_all add: length_stages)
  have "steps (csv_reporter (test_end_to_end_checkout_flow fo root now env)) ! k
          = step_of_stage fo (stages env ! k)"
    using assms(1) by (simp add: flow_failed [OF f] c length_stages)
  then show ?thesis
    using assms(3) by (simp add: step_of_stage_def)
qed

text \<open>
  C3. What the test does when a stage fails: the FAILED step is added to the reporter
  object and the exception is re-raised, and \<open>add_summary\<close> and \<open>generate_report\<close>,
  which stand after the last step, are not reached. So no run both raises and writes a
  report file. In the run where registration returns \<open>False\<close>, the reporter holds the
  one FAILED step with its error message, and no file is written.
\<close>

theorem failed_run_writes_no_report:
  "(report_file (test_end_to_end_checkout_flow fo root now env) = None
    \<or> raised (test_end_to_end_checkout_flow fo root now env) = None)
   \<and> report_file (test_end_to_end_checkout_flow centi_ops ''/repo'' run_start_a registration_fails_env) = None
   \<and> map status (steps (csv_reporter
        (test_end_to_end_checkout_flow centi_ops ''/repo'' run_start_a registration_fails_env))) = [''FAILED'']
   \<and> map error_message (steps (csv_reporter
        (test_end_to_end_checkout_flow centi_ops ''/repo'' run_start_a registration_fails_env)))
      = [''User registration failed'']"
proof -
  have g: "report_file (test_end_to_end_checkout_flow fo root now env) = None
    \<or> raised (test_end_to_end_checkout_flow fo root now env) = None"
  proof (cases "first_failure (stages env)")
    case None
    then show ?thesis
      by (simp add: flow_completed Let_def split: option.split)
  next
    case (Some e)
    then show ?thesis
      by (simp add: flow_failed)
  qed
  let ?st = "steps (csv_reporter
        (test_end_to_end_checkout_flow centi_ops ''/repo'' run_start_a registration_fails_env))"
  from halts_at_first_failure [of 0 registration_fails_env
      "AssertionError ''User registration failed''" centi_ops "''/repo''" run_start_a]
  have h: "length ?st = Suc 0" "status (?st ! 0) = ''FAILED''"
    "error_message (?st ! 0) = ''User registration failed''"
    "report_file (test_end_to_end_checkout_flow centi_ops ''/repo'' run_start_a registration_fails_env) = None"
    using registration_fails_step0 by simp_all
  from h(1) obtain s where s: "?st = [s]"
    by (cases ?st) auto
  with h(2,3) have "map status ?st = [''FAILED'']" "map error_message ?st = [''User registration failed'']"
    by simp_all
  with g h(4) show ?thesis by simp
qed

lemma step8_timeout:
  "order_success_text env = Inl e \<Longrightarrow>
     step8_body env = Inl (AssertionError ''Unexpected success message: '')"
  by (simp add: step8_body_def get_order_success_message_def bind_exn_def py_assert_def
      lower_def startswith_def)

lemma step7_confirm_raises:
  assumes "list_all (\<lambda>a. checkout_browser env a = None)
             [Click SHIPPING_CONTINUE_BUTTON, Click GROUND_SHIPPING, Click SHIPPING_METHOD_CONTINUE,
              Click CASH_ON_DELIVERY, Click PAYMENT_METHOD_CONTINUE, Click PAYMENT_INFO_CONTINUE]"
    and "click_confirm_order (checkout_browser env) = Some e"
  shows "step7_body env = Inl e"
proof -
  have g: "lower ''ground'' = ''ground''" "lower ''cash'' = ''cash''"
    by (simp_all add: lower_def lower_char_def)
  show ?thesis
    using assms
    by (simp add: step7_body_def bind_exn_def check_def then_do_def Let_def g
        click_shipping_continue_def select_shipping_method_def click_shipping_method_continue_def
        select_payment_method_def click_payment_method_continue_def
        click_payment_info_continue_def)
qed

lemma add_products_cong:
  assumes "search_product a = search_product b"
    "get_search_results_count a = get_search_results_count b"
    "add_to_cart_from_listing a = add_to_cart_from_listing b"
    "click_logo a = click_logo b"
  shows "add_products a i ps = add_products b i ps"
proof (induction ps arbitrary: i)
  case Nil
  show ?case by simp
next
  case (Cons p ps)
  have "add_product a i p = add_product b i p"
    unfolding add_product_def assms by (rule refl)
  with Cons show ?case by simp
qed

lemma step3_cong:
  assumes "search_product a = search_product b"
    "get_search_results_count a = get_search_results_count b"
    "add_to_cart_from_listing a = add_to_cart_from_listing b"
    "click_logo a = click_logo b" "products_to_add a = products_to_add b"
  shows "added_count a = added_count b" "step3_body a = step3_body b"
proof -
  show "added_count a = added_count b"
    using add_products_cong [OF assms(1-4)] assms(5) by (simp add: added_count_def)
  then show "step3_body a = step3_body b"
    by (simp add: step3_body_def)
qed

lemma same_bodies_confirm_timeout:
  "step0_body confirm_timeout_env = step0_body happy_env"
  "step1_body confirm_timeout_env = step1_body happy_env"
  "step2_body confirm_timeout_env = step2_body happy_env"
  "step4_body confirm_timeout_env = step4_body happy_env"
  "step5_body confirm_timeout_env = step5_body happy_env"
  "step6_body confirm_timeout_env = step6_body happy_env"
  "step7_body confirm_timeout_env = step7_body happy_env"
  by (simp_all add: confirm_timeout_env_def step0_body_def step1_body_def step2_body_def
      step4_body_def step5_body_def step6_body_def step7_body_def credentials_def)

lemma same_step3_confirm_timeout: "step3_body confirm_timeout_env = step3_body happy_env"
  by (rule step3_cong) (simp_all add: confirm_timeout_env_def)

lemma confirm_timeout_prefix: "list_all succeeded (take 8 (stages confirm_timeout_env))"
  by (simp add: stages_def succeeded_def same_bodies_confirm_timeout same_step3_confirm_timeout
      happy_steps)

lemma same_bodies_confirm_click:
  "step0_body confirm_click_env = step0_body happy_env"
  "step1_body confirm_click_env = step1_body happy_env"
  "step2_body confirm_click_env = step2_body happy_env"
  "step4_body confirm_click_env = step4_body happy_env"
  "step5_body confirm_click_env = step5_body happy_env"
  by (simp_all add: confirm_click_env_def step0_body_def step1_body_def step2_body_def
      step4_body_def step5_body_def credentials_def)

lemma same_step3_confirm_click: "step3_body confirm_click_env = step3_body happy_env"
  by (rule step3_cong) (simp_all add: confirm_click_env_def)

lemma confirm_click_step6: "step6_body confirm_click_env = Inr ''Billing address: NYC, United States''"
proof -
  have b: "checkout_browser confirm_click_env = confirm_click_browser"
    "billing_address confirm_click_env = billing_address happy_env"
    by (simp_all add: confirm_click_env_def)
  have a: "\<And>l t. confirm_click_browser (SendKeys l t) = None"
    "\<And>l t. confirm_click_browser (SelectDropdownByText l t) = None"
    by (simp_all add: confirm_click_browser_def)
  have f: "fill_billing_address confirm_click_browser (billing_address happy_env)
             = (billing_actions (billing_address happy_env), None)"
    by (simp add: fill_billing_address_block billing_actions_def optional_field_def a
        happy_env_def)
  have k: "click_billing_continue confirm_click_browser = None"
    by (simp add: click_billing_continue_def confirm_click_browser_def
        BILLING_CONTINUE_BUTTON_def CONFIRM_BUTTON_def)
  have d: "dict_item (billing_address happy_env) ''city'' = Inr ''NYC''"
    "dict_item (billing_address happy_env) ''country'' = Inr ''United States''"
    by (simp_all add: happy_env_def dict_item_def)
  show ?thesis
    by (simp add: step6_body_def b f d k bind_exn_def check_def)
qed

lemma confirm_click_prefix: "list_all succeeded (take 7 (stages confirm_click_env))"
  by (simp add: stages_def succeeded_def same_bodies_confirm_click same_step3_confirm_click
      happy_steps confirm_click_step6)

lemma confirm_click_others:
  "list_all (\<lambda>a. checkout_browser confirm_click_env a = None)
     [Click SHIPPING_CONTINUE_BUTTON, Click GROUND_SHIPPING, Click SHIPPING_METHOD_CONTINUE,
      Click CASH_ON_DELIVERY, Click PAYMENT_METHOD_CONTINUE, Click PAYMENT_INFO_CONTINUE]"
  by (simp add: confirm_click_env_def confirm_click_browser_def CONFIRM_BUTTON_def
      SHIPPING_CONTINUE_BUTTON_def GROUND_SHIPPING_def SHIPPING_METHOD_CONTINUE_def
      CASH_ON_DELIVERY_def PAYMENT_METHOD_CONTINUE_def PAYMENT_INFO_CONTINUE_def)

text \<open>
  C9 as stated fails: when the wait for the order success message times out,
  \<open>get_order_success_message\<close> catches the \<open>TimeoutException\<close> and returns the empty
  string, so the step fails on the assertion about the message. Its error message is
  'Unexpected success message: ', which holds no trace of the timeout.
\<close>

theorem confirmation_timeout_counterexample:
  "order_success_text confirm_timeout_env = Inl (TimeoutException ''Message: timeout'')
   \<and> (let st = steps (csv_reporter
                (test_end_to_end_checkout_flow centi_ops ''/repo'' run_start_a confirm_timeout_env))
      in length st = 9 \<and> status (st ! 8) = ''FAILED''
         \<and> error_message (st ! 8) = ''Unexpected success message: ''
         \<and> \<not> contains (lower (error_message (st ! 8))) ''timeout''
         \<and> \<not> contains (lower (error_message (st ! 8))) ''timed out'')"
proof -
  have o: "order_success_text confirm_timeout_env = Inl (TimeoutException ''Message: timeout'')"
    by (simp add: confirm_timeout_env_def)
  have b: "stage_outcome (stages confirm_timeout_env ! 8)
             = Inl (AssertionError ''Unexpected success message: '')"
    using step8_timeout [OF o] by (simp add: stages_nth)
  note h = halts_at_first_failure [of 8 confirm_timeout_env _ centi_ops "''/repo''" run_start_a,
      OF _ confirm_timeout_prefix b]
  have n: "\<not> contains (lower ''Unexpected success message: '') ''timeout''"
    "\<not> contains (lower ''Unexpected success message: '') ''timed out''"
    by (simp_all add: lower_def lower_char_def startswith_def)
  show ?thesis
    using o h n by (simp add: Let_def)
qed

text \<open>
  C9, amended. If the first eight steps succeed and reading the order success message
  raises (a timeout of the wait included), the message read is the empty string, step 8
  is recorded FAILED with the error message 'Unexpected success message: ', the
  \<open>AssertionError\<close> is re-raised and nothing is recorded after it.
  If instead the click on the confirm button raises, step 7 is recorded FAILED with
  \<open>str(e)\<close> of that exception, and step 8 is not run.
\<close>

theorem confirmation_failure_recorded:
  fixes fo :: "'d float_ops" and root :: string and now :: datetime and env :: "'d env"
  shows
  "let res = test_end_to_end_checkout_flow fo root now env; st = steps (csv_reporter res) in
     (list_all succeeded (take 8 (stages env)) \<and> order_success_text env = Inl e
        \<longrightarrow> get_order_success_message (order_success_text env) = ''''
            \<and> length st = 9 \<and> status (st ! 8) = ''FAILED''
            \<and> error_message (st ! 8) = ''Unexpected success message: ''
            \<and> raised res = Some (AssertionError ''Unexpected success message: ''))
   \<and> (list_all succeeded (take 7 (stages env))
        \<and> list_all (\<lambda>a. checkout_browser env a = None)
             [Click SHIPPING_CONTINUE_BUTTON, Click GROUND_SHIPPING, Click SHIPPING_METHOD_CONTINUE,
              Click CASH_ON_DELIVERY, Click PAYMENT_METHOD_CONTINUE, Click PAYMENT_INFO_CONTINUE]
        \<and> click_confirm_order (checkout_browser env) = Some e
        \<longrightarrow> length st = 8 \<and> status (st ! 7) = ''FAILED'' \<and> error_message (st ! 7) = str_exn e
            \<and> raised res = Some e)"
proof -
  have 1: "list_all succeeded (take 8 (stages env)) \<and> order_success_text env = Inl e
        \<longrightarrow> get_order_success_message (order_success_text env) = ''''
            \<and> length (steps (csv_reporter (test_end_to_end_checkout_flow fo root now env))) = 9
            \<and> status (steps (csv_reporter (test_end_to_end_checkout_flow fo root now env)) ! 8) = ''FAILED''
            \<and> error_message (steps (csv_reporter (test_end_to_end_checkout_flow fo root now env)) ! 8)
                = ''Unexpected success message: ''
            \<and> raised (test_end_to_end_checkout_flow fo root now env)
                = Some (AssertionError ''Unexpected success message: '')"
  proof (intro impI, elim conjE)
    assume p: "list_all succeeded (take 8 (stages env))" and o: "order_success_text env = Inl e"
    have b: "stage_outcome (stages env ! 8) = Inl (AssertionError ''Unexpected success message: '')"
      using step8_timeout [OF o] by (simp add: stages_nth)
    note h = halts_at_first_failure [of 8 env _ fo root now, OF _ p b]
    have "get_order_success_message (order_success_text env) = ''''"
      by (simp add: o get_order_success_message_def)
    with h show "get_order_success_message (order_success_text env) = ''''
            \<and> length (steps (csv_reporter (test_end_to_end_checkout_flow fo root now env))) = 9
            \<and> status (steps (csv_reporter (test_end_to_end_checkout_flow fo root now env)) ! 8) = ''FAILED''
            \<and> error_message (steps (csv_reporter (test_end_to_end_checkout_flow fo root now env)) ! 8)
                = ''Unexpected success message: ''
            \<and> raised (test_end_to_end_checkout_flow fo root now env)
                = Some (AssertionError ''Unexpected success message: '')"
      by simp
  qed
  have 2: "list_all succeeded (take 7 (stages env))
        \<and> list_all (\<lambda>a. checkout_browser env a = None)
             [Click SHIPPING_CONTINUE_BUTTON, Click GROUND_SHIPPING, Click SHIPPING_METHOD_CONTINUE,
              Click CASH_ON_DELIVERY, Click PAYMENT_METHOD_CONTINUE, Click PAYMENT_INFO_CONTINUE]
        \<and> click_confirm_order (checkout_browser env) = Some e
        \<longrightarrow> length (steps (csv_reporter (test_end_to_end_checkout_flow fo root now env))) = 8
            \<and> status (steps (csv_reporter (test_end_to_end_checkout_flow fo root now env)) ! 7) = ''FAILED''
            \<and> error_message (steps (csv_reporter (test_end_to_end_checkout_flow fo root now env)) ! 7)
                = str_exn e
            \<and> raised (test_end_to_end_checkout_flow fo root now env) = Some e"
  proof (intro impI, elim conjE)
    assume p: "list_all succeeded (take 7 (stages env))"
      and a: "list_all (\<lambda>a. checkout_browser env a = None)
             [Click SHIPPING_CONTINUE_BUTTON, Click GROUND_SHIPPING, Click SHIPPING_METHOD_CONTINUE,
              Click CASH_ON_DELIVERY, Click PAYMENT_METHOD_CONTINUE, Click PAYMENT_INFO_CONTINUE]"
      and c: "click_confirm_order (checkout_browser env) = Some e"
    have b: "stage_outcome (stages env ! 7) = Inl e"
      using step7_confirm_raises [OF a c] by (simp add: stages_nth)
    note h = halts_at_first_failure [of 7 env _ fo root now, OF _ p b]
    then show "length (steps (csv_reporter (test_end_to_end_checkout_flow fo root now env))) = 8
            \<and> status (steps (csv_reporter (test_end_to_end_checkout_flow fo root now env)) ! 7) = ''FAILED''
            \<and> error_message (steps (csv_reporter (test_end_to_end_checkout_flow fo root now env)) ! 7)
                = str_exn e
            \<and> raised (test_end_to_end_checkout_flow fo root now env) = Some e"
      by simp
  qed
  show ?thesis
    unfolding Let_def using 1 2 by blast
qed

theorem confirmation_failure_recorded_witness:
  "list_all succeeded (take 8 (stages confirm_timeout_env))
   \<and> order_success_text confirm_timeout_env = Inl (TimeoutException ''Message: timeout'')
   \<and> raised (test_end_to_end_checkout_flow centi_ops ''/repo'' run_start_a confirm_timeout_env)
       = Some (AssertionError ''Unexpected success message: '')
   \<and> click_confirm_order (checkout_browser confirm_click_env) = Some (TimeoutException ''Message: timeout'')
   \<and> map status (steps (csv_reporter
        (test_end_to_end_checkout_flow centi_ops ''/repo'' run_start_a confirm_click_env)))
      = [''SUCCESS'', ''SUCCESS'', ''SUCCESS'', ''SUCCESS'', ''SUCCESS'', ''SUCCESS'', ''SUCCESS'', ''FAILED'']
   \<and> error_message (steps (csv_reporter
        (test_end_to_end_checkout_flow centi_ops ''/repo'' run_start_a confirm_click_env)) ! 7)
      = ''Message: timeout''"
proof -
  have o: "order_success_text confirm_timeout_env = Inl (TimeoutException ''Message: timeout'')"
    by (simp add: confirm_timeout_env_def)
  note t = confirmation_failure_recorded [of centi_ops "''/repo''" run_start_a confirm_timeout_env
      "TimeoutException ''Message: timeout''", unfolded Let_def]
  from t confirm_timeout_prefix o
  have 1: "raised (test_end_to_end_checkout_flow centi_ops ''/repo'' run_start_a confirm_timeout_env)
       = Some (AssertionError ''Unexpected success message: '')"
    by blast
  have c: "click_confirm_order (checkout_browser confirm_click_env) = Some (TimeoutException ''Message: timeout'')"
    by (simp add: click_confirm_order_def confirm_click_env_def confirm_click_browser_def)
  note u = confirmation_failure_recorded [of centi_ops "''/repo''" run_start_a confirm_click_env
      "TimeoutException ''Message: timeout''", unfolded Let_def]
  let ?st = "steps (csv_reporter
        (test_end_to_end_checkout_flow centi_ops ''/repo'' run_start_a confirm_click_env))"
  from u confirm_click_prefix confirm_click_others c
  have 2: "length ?st = 8" "status (?st ! 7) = ''FAILED''"
    "error_message (?st ! 7) = str_exn (TimeoutException ''Message: timeout'')"
    by blast+
  have f: "first_failure (stages confirm_click_env) = Some (TimeoutException ''Message: timeout'')"
    using first_failure_at [of 7 "stages confirm_click_env" "TimeoutException ''Message: timeout''"]
      confirm_click_prefix step7_confirm_raises [OF confirm_click_others c]
    by (simp add: length_stages stages_nth)
  from failed_run_steps(3,5) [OF f, of centi_ops "''/repo''" run_start_a] 2(1)
  have "list_all (\<lambda>s. status s = ''SUCCESS'') (take 7 ?st)"
    by simp
  with 2(1,2) have "map status ?st
      = [''SUCCESS'', ''SUCCESS'', ''SUCCESS'', ''SUCCESS'', ''SUCCESS'', ''SUCCESS'', ''SUCCESS'', ''FAILED'']"
    by (auto simp: list_all_length list_eq_iff_nth_eq less_Suc_eq numeral_eq_Suc)
  with confirm_timeout_prefix o 1 c 2(3) show ?thesis
    by simp
qed

section \<open>Best-effort parts of the run\<close>

lemma succeeded_prefix_count:
  assumes "list_all succeeded (take k ss)" "k < length ss"
  shows "Suc k \<le> recorded_count ss"
proof -
  have "\<And>i. i < k \<Longrightarrow> succeeded (ss ! i)"
    using assms by (simp add: list_all_length)
  then have "k \<le> length (takeWhile succeeded ss)"
    using assms(2)
    by (metis (no_types, lifting) length_takeWhile_less_P_nth linorder_not_less
        less_le_not_le nth_length_takeWhile)
  then show ?thesis
    using assms(2) by (simp add: recorded_count_def Let_def)
qed

lemma recorded_step_nth:
  fixes fo :: "'d float_ops" and root :: string and now :: datetime and env :: "'d env"
  assumes "k < recorded_count (stages env)"
  shows "k < length (steps (csv_reporter (test_end_to_end_checkout_flow fo root now env)))
         \<and> steps (csv_reporter (test_end_to_end_checkout_flow fo root now env)) ! k
             = step_of_stage fo (stages env ! k)"
proof (cases "first_failure (stages env)")
  case None
  have c: "recorded_count (stages env) = 9"
    using None by (simp add: first_failure_None all_succeeded_count length_stages)
  show ?thesis
    using assms c
    by (simp add: flow_completed [OF None] Let_def add_summary_def nth_append length_stages
        split: option.split)
next
  case (Some e)
  have "recorded_count (stages env) \<le> 9"
    using recorded_count_le [of "stages env"] by (simp add: length_stages)
  then show ?thesis
    using assms by (simp add: flow_failed [OF Some] length_stages)
qed

lemma succeeded_step_recorded:
  fixes fo :: "'d float_ops" and root :: string and now :: datetime and env :: "'d env"
  assumes "k < 9" "list_all succeeded (take k (stages env))" "stage_outcome (stages env ! k) = Inr d"
  shows "Suc k \<le> length (steps (csv_reporter (test_end_to_end_checkout_flow fo root now env)))
         \<and> status (steps (csv_reporter (test_end_to_end_checkout_flow fo root now env)) ! k) = ''SUCCESS''
         \<and> details (steps (csv_reporter (test_end_to_end_checkout_flow fo root now env)) ! k) = d"
proof -
  have "k < recorded_count (stages env)"
    using succeeded_prefix_count [of k "stages env"] assms(1,2) by (simp add: length_stages)
  from recorded_step_nth [OF this, of fo root now] assms(3) show ?thesis
    by (simp add: step_of_stage_def)
qed







lemma add_product_count:
  "fst (add_product env i p) = (if product_added env i then 1 else 0)"
  by (simp add: add_product_def product_added_def split: option.split)

lemma add_products_count:
  "fst (add_products env i ps) = length (filter (product_added env) [i..<i + length ps])"
proof (induction ps arbitrary: i)
  case Nil
  show ?case by simp
next
  case (Cons p ps)
  have "i < i + length (p # ps)" by simp
  then have "[i..<i + length (p # ps)] = i # [Suc i..<i + length (p # ps)]"
    by (rule upt_conv_Cons)
  moreover have "i + length (p # ps) = Suc i + length ps" by simp
  ultimately have u: "[i..<i + length (p # ps)] = i # [Suc i..<Suc i + length ps]"
    by (simp only:)
  obtain k l where a: "add_product env i p = (k, l)"
    by (cases "add_product env i p")
  obtain n ls where b: "add_products env (Suc i) ps = (n, ls)"
    by (cases "add_products env (Suc i) ps")
  have "k = (if product_added env i then 1 else 0)"
    using add_product_count [of env i p] a by simp
  moreover have "n = length (filter (product_added env) [Suc i..<Suc i + length ps])"
    using Cons.IH [of "Suc i"] b by simp
  ultimately show ?case
    unfolding u by (simp add: a b)
qed

lemma added_count_exact:
  "added_count env
     = length (filter (product_added env) [0..<min 3 (length (products_to_add env))])"
  by (simp add: added_count_def add_products_count min.commute)

lemma add_product_logs_failure:
  "product_failure env i = Some e \<Longrightarrow> FailedToAdd p e \<in> set (snd (add_product env i p))"
  by (auto simp: add_product_def product_failure_def split: option.splits if_splits)

lemma add_products_log_failure:
  assumes "j < length ps" "product_failure env (i + j) = Some e"
  shows "FailedToAdd (ps ! j) e \<in> set (snd (add_products env i ps))"
  using assms
proof (induction ps arbitrary: i j)
  case Nil
  then show ?case by simp
next
  case (Cons p ps)
  obtain k l where a: "add_product env i p = (k, l)"
    by (cases "add_product env i p")
  obtain n ls where b: "add_products env (Suc i) ps = (n, ls)"
    by (cases "add_products env (Suc i) ps")
  show ?case
  proof (cases j)
    case 0
    with Cons.prems have "FailedToAdd p e \<in> set (snd (add_product env i p))"
      by (simp add: add_product_logs_failure)
    with 0 show ?thesis by (simp add: a b)
  next
    case (Suc m)
    with Cons.prems have "m < length ps" "product_failure env (Suc i + m) = Some e"
      by simp_all
    then have "FailedToAdd (ps ! m) e \<in> set (snd (add_products env (Suc i) ps))"
      by (rule Cons.IH)
    with Suc show ?thesis by (simp add: a b)
  qed
qed

lemma populate_logs_failure:
  assumes "i < min 3 (length (products_to_add env))" "product_failure env i = Some e"
  shows "FailedToAdd (products_to_add env ! i) e \<in> set (populate_log env)"
proof -
  have "i < length (take 3 (products_to_add env))"
    using assms(1) by simp
  from add_products_log_failure [OF this, of env 0 e] assms
  show ?thesis
    by (simp add: populate_log_def)
qed

lemma step3_none_added:
  "added_count env = 0 \<Longrightarrow> step3_body env = Inl (AssertionError ''Failed to add any products to cart'')"
  by (simp add: step3_body_def bind_exn_def py_assert_def)

lemma step3_some_added:
  "0 < added_count env \<Longrightarrow>
     step3_body env = Inr (''Added '' @ str_int (int (added_count env)) @ '' products to cart'')"
  by (simp add: step3_body_def bind_exn_def py_assert_def)

text \<open>
  C5. The product loop tries the first three requested products. \<open>added_count\<close> is
  exactly the number of those for which the search succeeded, found results, and the
  add-to-cart call returned. With none added the step body fails on its assertion: in
  a run that reached it, step 3 is recorded FAILED with the details 'Only added 0
  products' and the run ends. With at least one added the step
  is recorded SUCCESS with the details 'Added n products to cart', n being that exact
  count, whatever happened to the other products. An exception that kept a product from
  being added is logged as a failure to add that product and the loop goes on.
\<close>

theorem populate_cart_policy:
  fixes fo :: "'d float_ops" and root :: string and now :: datetime and env :: "'d env"
  shows
  "let res = test_end_to_end_checkout_flow fo root now env; st = steps (csv_reporter res);
       n = added_count env in
     n = length (filter (product_added env) [0..<min 3 (length (products_to_add env))])
   \<and> (n = 0 \<longrightarrow> step3_body env = Inl (AssertionError ''Failed to add any products to cart''))
   \<and> (0 < n \<longrightarrow> step3_body env = Inr (''Added '' @ str_int (int n) @ '' products to cart''))
   \<and> (list_all succeeded (take 3 (stages env)) \<and> n = 0
        \<longrightarrow> length st = 4 \<and> status (st ! 3) = ''FAILED''
            \<and> details (st ! 3) = ''Only added 0 products''
            \<and> raised res = Some (AssertionError ''Failed to add any products to cart''))
   \<and> (list_all succeeded (take 3 (stages env)) \<and> 0 < n
        \<longrightarrow> 4 \<le> length st \<and> status (st ! 3) = ''SUCCESS''
            \<and> details (st ! 3) = ''Added '' @ str_int (int n) @ '' products to cart'')
   \<and> (\<forall>i e. i < min 3 (length (products_to_add env)) \<and> product_failure env i = Some e
          \<longrightarrow> FailedToAdd (products_to_add env ! i) e \<in> set (populate_log env))"
proof -
  let ?res = "test_end_to_end_checkout_flow fo root now env"
  let ?st = "steps (csv_reporter ?res)"
  let ?n = "added_count env"
  have 1: "?n = length (filter (product_added env) [0..<min 3 (length (products_to_add env))])"
    by (rule added_count_exact)
  have 2: "?n = 0 \<longrightarrow> step3_body env = Inl (AssertionError ''Failed to add any products to cart'')"
    using step3_none_added by blast
  have 3: "0 < ?n \<longrightarrow> step3_body env = Inr (''Added '' @ str_int (int ?n) @ '' products to cart'')"
    using step3_some_added by blast
  have 4: "list_all succeeded (take 3 (stages env)) \<and> ?n = 0
        \<longrightarrow> length ?st = 4 \<and> status (?st ! 3) = ''FAILED''
            \<and> details (?st ! 3) = ''Only added 0 products''
            \<and> raised ?res = Some (AssertionError ''Failed to add any products to cart'')"
  proof (intro impI, elim conjE)
    assume p: "list_all succeeded (take 3 (stages env))" and z: "?n = 0"
    have b: "stage_outcome (stages env ! 3) = Inl (AssertionError ''Failed to add any products to cart'')"
      using step3_none_added [OF z] by (simp add: stages_nth)
    note h = halts_at_first_failure [of 3 env _ fo root now, OF _ p b]
    note d = details_failed_step [of 3 env _ fo root now, OF _ p b]
    have "str_int (int 0) = ''0''"
      by (simp add: str_int_digit digit_char_def)
    with h d z show "length ?st = 4 \<and> status (?st ! 3) = ''FAILED''
            \<and> details (?st ! 3) = ''Only added 0 products''
            \<and> raised ?res = Some (AssertionError ''Failed to add any products to cart'')"
      by (simp add: stages_fail_details)
  qed
  have 5: "list_all succeeded (take 3 (stages env)) \<and> 0 < ?n
        \<longrightarrow> 4 \<le> length ?st \<and> status (?st ! 3) = ''SUCCESS''
            \<and> details (?st ! 3) = ''Added '' @ str_int (int ?n) @ '' products to cart''"
  proof (intro impI, elim conjE)
    assume p: "list_all succeeded (take 3 (stages env))" and z: "0 < ?n"
    have b: "stage_outcome (stages env ! 3)
               = Inr (''Added '' @ str_int (int ?n) @ '' products to cart'')"
      using step3_some_added [OF z] by (simp add: stages_nth)
    from succeeded_step_recorded [of 3 env _ fo root now, OF _ p b]
    show "4 \<le> length ?st \<and> status (?st ! 3) = ''SUCCESS''
            \<and> details (?st ! 3) = ''Added '' @ str_int (int ?n) @ '' products to cart''"
      by simp
  qed
  have 6: "\<forall>i e. i < min 3 (length (products_to_add env)) \<and> product_failure env i = Some e
          \<longrightarrow> FailedToAdd (products_to_add env ! i) e \<in> set (populate_log env)"
    using populate_logs_failure [of _ env] by blast
  show ?thesis
    unfolding Let_def using 1 2 3 4 5 6 by blast
qed

theorem populate_cart_policy_witness:
  "added_count no_products_env = 0
   \<and> map status (steps (csv_reporter
        (test_end_to_end_checkout_flow centi_ops ''/repo'' run_start_a no_products_env)))
      = [''SUCCESS'', ''SUCCESS'', ''SUCCESS'', ''FAILED'']
   \<and> details (steps (csv_reporter
        (test_end_to_end_checkout_flow centi_ops ''/repo'' run_start_a no_products_env)) ! 3)
      = ''Only added 0 products''
   \<and> product_failure second_product_env 0 = Some (TimeoutException ''Message: '')
   \<and> FailedToAdd ''laptop'' (TimeoutException ''Message: '') \<in> set (populate_log second_product_env)
   \<and> added_count second_product_env = 1
   \<and> details (steps (csv_reporter
        (test_end_to_end_checkout_flow centi_ops ''/repo'' run_start_a second_product_env)) ! 3)
      = ''Added 1 products to cart''"
proof -
  note t = populate_cart_policy [where env = no_products_env and fo = centi_ops
      and root = "''/repo''" and now = run_start_a, unfolded Let_def]
  have z: "added_count no_products_env = 0"
    by (simp add: added_count_def add_product_def no_products_env_def happy_env_def)
  have "step0_body no_products_env = step0_body happy_env"
    "step1_body no_products_env = step1_body happy_env"
    "step2_body no_products_env = step2_body happy_env"
    by (simp_all add: no_products_env_def step0_body_def step1_body_def step2_body_def credentials_def)
  then have p: "list_all succeeded (take 3 (stages no_products_env))"
    by (simp add: stages_def succeeded_def happy_steps)
  let ?st = "steps (csv_reporter
        (test_end_to_end_checkout_flow centi_ops ''/repo'' run_start_a no_products_env))"
  from t p z have l: "length ?st = 4" "status (?st ! 3) = ''FAILED''"
    "details (?st ! 3) = ''Only added 0 products''"
    by blast+
  from t z have b: "stage_outcome (stages no_products_env ! 3)
      = Inl (AssertionError ''Failed to add any products to cart'')"
    by (simp add: stages_nth)
  have f: "first_failure (stages no_products_env)
      = Some (AssertionError ''Failed to add any products to cart'')"
    using first_failure_at [of 3 "stages no_products_env"] p b by (simp add: length_stages)
  from failed_run_steps(3,5) [OF f, of centi_ops "''/repo''" run_start_a] l(1)
  have "list_all (\<lambda>s. status s = ''SUCCESS'') (take 3 ?st)"
    by simp
  with l have m: "map status ?st = [''SUCCESS'', ''SUCCESS'', ''SUCCESS'', ''FAILED'']"
    by (auto simp: list_all_length list_eq_iff_nth_eq less_Suc_eq numeral_eq_Suc)
  note u = populate_cart_policy [where env = second_product_env and fo = centi_ops
      and root = "''/repo''" and now = run_start_a, unfolded Let_def]
  have pf: "product_failure second_product_env 0 = Some (TimeoutException ''Message: '')"
    by (simp add: product_failure_def second_product_env_def)
  have i: "0 < min 3 (length (products_to_add second_product_env))"
    "products_to_add second_product_env ! 0 = ''laptop''"
    by (simp_all add: second_product_env_def happy_env_def)
  from u pf i(1) have "FailedToAdd (products_to_add second_product_env ! 0)
      (TimeoutException ''Message: '') \<in> set (populate_log second_product_env)"
    by blast
  then have lg: "FailedToAdd ''laptop'' (TimeoutException ''Message: '') \<in> set (populate_log second_product_env)"
    by (simp only: i(2))
  have a: "added_count second_product_env = 1"
    by (simp add: added_count_def add_product_def second_product_env_def happy_env_def)
  have "step0_body second_product_env = step0_body happy_env"
    "step1_body second_product_env = step1_body happy_env"
    "step2_body second_product_env = step2_body happy_env"
    by (simp_all add: second_product_env_def step0_body_def step1_body_def step2_body_def credentials_def)
  then have q: "list_all succeeded (take 3 (stages second_product_env))"
    by (simp add: stages_def succeeded_def happy_steps)
  have pos: "0 < added_count second_product_env"
    using a by simp
  from u q pos have "details (steps (csv_reporter
        (test_end_to_end_checkout_flow centi_ops ''/repo'' run_start_a second_product_env)) ! 3)
      = ''Added '' @ str_int (int (added_count second_product_env)) @ '' products to cart''"
    by blast
  then have d: "details (steps (csv_reporter
        (test_end_to_end_checkout_flow centi_ops ''/repo'' run_start_a second_product_env)) ! 3)
      = ''Added 1 products to cart''"
    by (simp add: a str_int_digit digit_char_def)
  show ?thesis
    using z m l(3) pf lg a d by simp
qed

section \<open>Writing the report and reading it back\<close>

lemma chars_distinct:
  "COMMA \<noteq> QUOTE" "COMMA \<noteq> CR" "COMMA \<noteq> LF" "QUOTE \<noteq> CR" "QUOTE \<noteq> LF" "CR \<noteq> LF"
  "QUOTE \<noteq> COMMA" "CR \<noteq> COMMA" "LF \<noteq> COMMA" "CR \<noteq> QUOTE" "LF \<noteq> QUOTE" "LF \<noteq> CR"
  by (simp_all add: COMMA_def QUOTE_def CR_def LF_def)

lemma read_plain:
  "\<not> list_ex special f \<Longrightarrow> reader InField fld row (f @ rest) = reader InField (fld @ f) row rest"
proof (induction f arbitrary: fld)
  case Nil
  show ?case by simp
next
  case (Cons c cs)
  then have s: "\<not> special c" and r: "\<not> list_ex special cs"
    by simp_all
  from s have "c \<noteq> LF" "c \<noteq> CR" "c \<noteq> COMMA"
    by (simp_all add: special_def)
  with Cons.IH [OF r, of "fld @ [c]"] show ?case by simp
qed

lemma read_plain_start:
  assumes "\<not> list_ex special f" "f \<noteq> []"
  shows "reader StartField [] row (f @ rest) = reader InField f row rest"
proof -
  obtain c cs where f: "f = c # cs"
    using assms(2) by (cases f) auto
  with assms(1) have s: "\<not> special c" and r: "\<not> list_ex special cs"
    by simp_all
  from s have "c \<noteq> LF" "c \<noteq> CR" "c \<noteq> COMMA" "c \<noteq> QUOTE"
    by (simp_all add: special_def)
  with read_plain [OF r, of "[c]" row rest] show ?thesis
    by (simp add: f)
qed

lemma read_quoted:
  "reader InQuotedField fld row (double_quotes f @ QUOTE # rest)
     = reader QuoteInQuotedField (fld @ f) row rest"
proof (induction f arbitrary: fld)
  case Nil
  show ?case by simp
next
  case (Cons c cs)
  show ?case
  proof (cases "c = QUOTE")
    case True
    with Cons.IH [of "fld @ [QUOTE]"] show ?thesis by simp
  next
    case False
    with Cons.IH [of "fld @ [c]"] show ?thesis by simp
  qed
qed

lemma read_field_comma:
  "reader StartField [] row (write_field f @ COMMA # rest) = reader StartField [] (row @ [f]) rest"
proof (cases "needs_quotes f")
  case True
  then show ?thesis
    using read_quoted [of "[]" row f "COMMA # rest"]
    by (simp add: write_field_def chars_distinct)
next
  case False
  then have p: "\<not> list_ex special f"
    by (simp add: needs_quotes_def)
  show ?thesis
  proof (cases "f = []")
    case True
    with False show ?thesis
      by (simp add: write_field_def chars_distinct)
  next
    case n: False
    with False read_plain_start [OF p n, of row "COMMA # rest"] show ?thesis
      by (simp add: write_field_def chars_distinct)
  qed
qed

lemma read_field_crlf:
  "reader StartField [] row (write_field f @ CR # LF # rest)
     = (row @ [f]) # reader StartRecord [] [] rest"
proof (cases "needs_quotes f")
  case True
  then show ?thesis
    using read_quoted [of "[]" row f "CR # LF # rest"]
    by (simp add: write_field_def chars_distinct)
next
  case False
  then have p: "\<not> list_ex special f"
    by (simp add: needs_quotes_def)
  show ?thesis
  proof (cases "f = []")
    case True
    with False show ?thesis
      by (simp add: write_field_def chars_distinct)
  next
    case n: False
    with False read_plain_start [OF p n, of row "CR # LF # rest"] show ?thesis
      by (simp add: write_field_def chars_distinct)
  qed
qed

lemma read_fields:
  "fs \<noteq> [] \<Longrightarrow>
     reader StartField [] row (join_fields (map write_field fs) @ CR # LF # rest)
       = (row @ fs) # reader StartRecord [] [] rest"
proof (induction fs arbitrary: row rule: join_fields.induct)
  case 1
  then show ?case by simp
next
  case (2 f)
  show ?case
    by (simp add: read_field_crlf)
next
  case (3 f g fs)
  have "reader StartField [] row (join_fields (map write_field (f # g # fs)) @ CR # LF # rest)
      = reader StartField [] row (write_field f @ COMMA # (join_fields (map write_field (g # fs)) @ CR # LF # rest))"
    by simp
  also have "\<dots> = reader StartField [] (row @ [f]) (join_fields (map write_field (g # fs)) @ CR # LF # rest)"
    by (rule read_field_comma)
  also have "\<dots> = ((row @ [f]) @ g # fs) # reader StartRecord [] [] rest"
    using "3.IH" [of "row @ [f]"] by simp
  finally show ?case by simp
qed

lemma start_record_field:
  assumes "s \<noteq> []" "hd s \<noteq> LF" "hd s \<noteq> CR"
  shows "reader StartRecord fld row s = reader StartField [] [] s"
  using assms by (cases s) simp_all

lemma hd_write_field:
  assumes "f \<noteq> []"
  shows "write_field f \<noteq> [] \<and> hd (write_field f) \<noteq> LF \<and> hd (write_field f) \<noteq> CR"
proof (cases "needs_quotes f")
  case True
  then show ?thesis
    by (simp add: write_field_def chars_distinct)
next
  case False
  obtain c cs where f: "f = c # cs"
    using assms by (cases f) auto
  from False have "\<not> special c"
    by (simp add: needs_quotes_def f)
  then have "c \<noteq> LF" "c \<noteq> CR"
    by (simp_all add: special_def)
  with False show ?thesis
    by (simp add: write_field_def f)
qed

lemma hd_joined:
  assumes "fs \<noteq> []" "fs \<noteq> [[]]"
  shows "hd (join_fields (map write_field fs) @ CR # LF # rest) \<noteq> LF
         \<and> hd (join_fields (map write_field fs) @ CR # LF # rest) \<noteq> CR"
proof (cases fs)
  case Nil
  with assms show ?thesis by simp
next
  case (Cons f gs)
  show ?thesis
  proof (cases "f = []")
    case True
    with assms Cons obtain g hs where "gs = g # hs"
      by (cases gs) auto
    with True Cons show ?thesis
      by (simp add: write_field_def needs_quotes_def chars_distinct)
  next
    case False
    from hd_write_field [OF False] have "hd (write_field f @ more) \<noteq> LF \<and> hd (write_field f @ more) \<noteq> CR"
      for more
      by simp
    then show ?thesis
      by (cases gs) (simp_all add: Cons)
  qed
qed

lemma read_row:
  "reader StartRecord [] [] (writerow fs @ rest) = fs # reader StartRecord [] [] rest"
proof -
  consider "fs = []" | "fs = [[]]" | "fs \<noteq> []" "fs \<noteq> [[]]"
    by blast
  then show ?thesis
  proof cases
    case 1
    then show ?thesis
      by (simp add: writerow_def chars_distinct)
  next
    case 2
    then show ?thesis
      by (simp add: writerow_def chars_distinct)
  next
    case 3
    let ?s = "join_fields (map write_field fs) @ CR # LF # rest"
    have "reader StartRecord [] [] ?s = reader StartField [] [] ?s"
      using hd_joined [OF 3, of rest] by (intro start_record_field) simp_all
    also have "\<dots> = ([] @ fs) # reader StartRecord [] [] rest"
      using 3(1) by (rule read_fields)
    finally show ?thesis
      using 3(2) by (simp add: writerow_def)
  qed
qed

lemma read_rows:
  "reader StartRecord [] [] (concat (map writerow rows)) = rows"
proof (induction rows)
  case Nil
  show ?case by simp
next
  case (Cons r rows)
  then show ?case
    by (simp add: read_row)
qed

lemma csv_round_trip:
  "csv_reader (csv_text fo r) = headers r # map (dict_to_list fo (headers r)) (steps r)"
proof -
  have "csv_text fo r = concat (map writerow (headers r # map (dict_to_list fo (headers r)) (steps r)))"
    by (simp add: csv_text_def comp_def)
  then show ?thesis
    unfolding csv_reader_def by (simp only: read_rows)
qed

lemma str_nat_nonempty: "str_nat n \<noteq> []"
  by (subst str_nat.simps) simp

lemma digit_char_not_minus: "k < 10 \<Longrightarrow> digit_char k \<noteq> CHR ''-''"
proof -
  assume "k < 10"
  then have "digit_char k \<in> set ''0123456789''"
    unfolding digit_char_def by (intro nth_mem) simp
  then show ?thesis by auto
qed

lemma str_nat_hd: "hd (str_nat n) \<noteq> CHR ''-''"
proof (induction n rule: str_nat.induct)
  case (1 n)
  show ?case
  proof (cases "n < 10")
    case True
    then show ?thesis
      by (subst str_nat.simps) (simp add: digit_char_not_minus)
  next
    case False
    with 1 have "hd (str_nat (n div 10)) \<noteq> CHR ''-''" by simp
    with False show ?thesis
      by (subst str_nat.simps) (simp add: str_nat_nonempty)
  qed
qed

lemma str_nat_inj: "str_nat n = str_nat m \<Longrightarrow> n = m"
proof (induction n arbitrary: m rule: str_nat.induct)
  case (1 n)
  show ?case
  proof (cases "n < 10")
    case True
    show ?thesis
    proof (cases "m < 10")
      case m: True
      from "1.prems" True m have "digit_char n = digit_char m"
        by (simp add: str_nat.simps [of n] str_nat.simps [of m])
      with True m show ?thesis
        by (simp add: digit_char_eq)
    next
      case m: False
      from "1.prems" True m have "[digit_char n] = str_nat (m div 10) @ [digit_char (m mod 10)]"
        by (simp add: str_nat.simps [of n] str_nat.simps [of m])
      then show ?thesis
        using str_nat_nonempty [of "m div 10"] by simp
    qed
  next
    case False
    show ?thesis
    proof (cases "m < 10")
      case m: True
      from "1.prems" False m have "str_nat (n div 10) @ [digit_char (n mod 10)] = [digit_char m]"
        by (simp add: str_nat.simps [of n] str_nat.simps [of m])
      then show ?thesis
        using str_nat_nonempty [of "n div 10"] by simp
    next
      case m: False
      from "1.prems" False m
      have "str_nat (n div 10) @ [digit_char (n mod 10)] = str_nat (m div 10) @ [digit_char (m mod 10)]"
        by (simp add: str_nat.simps [of n] str_nat.simps [of m])
      then have a: "str_nat (n div 10) = str_nat (m div 10)"
        and b: "digit_char (n mod 10) = digit_char (m mod 10)"
        by simp_all
      from "1.IH" [OF False a] have "n div 10 = m div 10" .
      moreover from b have "n mod 10 = m mod 10"
        by (simp add: digit_char_eq)
      ultimately show ?thesis
        by (metis div_mult_mod_eq)
    qed
  qed
qed

lemma str_int_inj: "str_int a = str_int b \<Longrightarrow> a = b"
proof -
  assume e: "str_int a = str_int b"
  have h: "\<And>n m. CHR ''-'' # str_nat n \<noteq> str_nat m"
    using str_nat_hd str_nat_nonempty by (metis list.sel(1))
  show ?thesis
  proof (cases "a < 0"; cases "b < 0")
    assume "a < 0" "b < 0"
    with e have "nat (- a) = nat (- b)"
      by (simp add: str_int_def str_nat_inj)
    with \<open>a < 0\<close> \<open>b < 0\<close> show ?thesis by simp
  next
    assume "a < 0" "\<not> b < 0"
    with e h show ?thesis by (simp add: str_int_def)
  next
    assume "\<not> a < 0" "b < 0"
    with e h [of "nat (- b)" "nat a"] show ?thesis by (simp add: str_int_def)
  next
    assume "\<not> a < 0" "\<not> b < 0"
    with e have "nat a = nat b"
      by (simp add: str_int_def str_nat_inj)
    with \<open>\<not> a < 0\<close> \<open>\<not> b < 0\<close> show ?thesis by simp
  qed
qed

lemma str_int_nonempty: "str_int a \<noteq> []"
  by (simp add: str_int_def str_nat_nonempty)

lemma str_cell_inj:
  "reporter_number c \<Longrightarrow> reporter_number d \<Longrightarrow> str_cell c = str_cell d \<Longrightarrow> c = d"
  using str_int_nonempty
  by (cases c; cases d) (auto dest: str_int_inj simp: eq_commute [of "[]"])

lemma step_cells_inj:
  fixes s t :: "'d step"
  assumes "inj (frepr fo)" "reporter_number (step_number s)" "reporter_number (step_number t)"
    "step_cells fo s = step_cells fo t"
  shows "s = t"
proof -
  from assms(4) have c: "str_cell (step_number s) = str_cell (step_number t)"
    and o: "step_name s = step_name t" "status s = status t" "details s = details t"
      "error_message s = error_message t"
    and d: "frepr fo (duration s) = frepr fo (duration t)"
    by (simp_all add: step_cells_def)
  from str_cell_inj [OF assms(2,3) c] have "step_number s = step_number t" .
  moreover from d assms(1) have "duration s = duration t"
    by (simp add: inj_eq)
  ultimately show ?thesis
    using o by simp
qed

lemma steps_cells_inj:
  fixes ss ts :: "'d step list"
  assumes "inj (frepr fo)" "list_all (\<lambda>s. reporter_number (step_number s)) ss"
    "list_all (\<lambda>s. reporter_number (step_number s)) ts"
    "map (step_cells fo) ss = map (step_cells fo) ts"
  shows "ss = ts"
  using assms(2-4)
proof (induction ss arbitrary: ts)
  case Nil
  then show ?case by simp
next
  case (Cons s ss)
  then obtain t ts' where t: "ts = t # ts'"
    by (cases ts) auto
  with Cons.prems have "step_cells fo s = step_cells fo t" "map (step_cells fo) ss = map (step_cells fo) ts'"
    "reporter_number (step_number s)" "reporter_number (step_number t)"
    "list_all (\<lambda>s. reporter_number (step_number s)) ss"
    "list_all (\<lambda>s. reporter_number (step_number s)) ts'"
    by simp_all
  with Cons.IH [of ts'] step_cells_inj [OF assms(1), of s t] show ?case
    by (simp add: t)
qed

lemma dict_to_list_keys: "dict_to_list fo step_keys s = step_cells fo s"
  by (simp add: dict_to_list_def step_keys_def field_text_def step_cells_def)

lemma dict_to_list_keys_fun: "dict_to_list fo step_keys = step_cells fo"
  by (rule ext) (rule dict_to_list_keys)

text \<open>
  C6. For a reporter with the six header names, after \<open>add_summary\<close>,
  \<open>generate_report\<close> (when the file can be opened) writes to \<open>csv_file\<close> a text that
  the reader reads back as: the header row 'Step Number', 'Step Name', 'Status',
  'Duration (seconds)', 'Details', 'Error Message'; then one row per recorded step, in
  recorded order, holding the text of its six values, whatever characters they contain;
  then the summary row, whose step number is empty and whose name is SUMMARY. The same
  holds for the rows of any reporter, with or without summary. The step data can be
  reconstructed from the file: if the rendering of durations is injective (as the
  \<open>repr\<close> of a float is), two step sequences of the reporter written to equal files
  are equal.
\<close>

theorem report_round_trip:
  fixes fo :: "'d float_ops" and r :: "'d reporter"
  shows
  "headers r = [''Step Number'', ''Step Name'', ''Status'', ''Duration (seconds)'',
                ''Details'', ''Error Message'']
   \<longrightarrow> (let r' = add_summary fo r; summary = last (steps r') in
          generate_report fo None r' = Inr (csv_file r, csv_text fo r')
        \<and> csv_reader (csv_text fo r')
            = [''Step Number'', ''Step Name'', ''Status'', ''Duration (seconds)'',
               ''Details'', ''Error Message'']
              # map (step_cells fo) (steps r) @ [step_cells fo summary]
        \<and> step_cells fo summary ! 0 = '''' \<and> step_cells fo summary ! 1 = ''SUMMARY'')
     \<and> csv_reader (csv_text fo r) = headers r # map (step_cells fo) (steps r)
     \<and> (\<forall>ss ts. inj (frepr fo)
            \<and> list_all (\<lambda>s. reporter_number (step_number s)) ss
            \<and> list_all (\<lambda>s. reporter_number (step_number s)) ts
            \<and> csv_text fo (r\<lparr>steps := ss\<rparr>) = csv_text fo (r\<lparr>steps := ts\<rparr>)
          \<longrightarrow> ss = ts)"
proof
  assume h: "headers r = [''Step Number'', ''Step Name'', ''Status'', ''Duration (seconds)'',
                ''Details'', ''Error Message'']"
  then have k: "headers r = step_keys"
    by (simp add: step_keys_def)
  let ?r = "add_summary fo r"
  have hs: "headers ?r = step_keys" "csv_file ?r = csv_file r"
    "steps ?r = steps r @ [last (steps ?r)]"
    using k by (simp_all add: add_summary_def Let_def)
  have w: "wrong_fields step_keys = []"
    by (simp add: wrong_fields_def)
  have 1: "generate_report fo None ?r = Inr (csv_file r, csv_text fo ?r)"
    by (simp add: generate_report_def hs(1,2) w)
  have "csv_reader (csv_text fo ?r) = step_keys # map (step_cells fo) (steps ?r)"
    by (simp add: csv_round_trip hs(1) dict_to_list_keys)
  also have "map (step_cells fo) (steps ?r)
      = map (step_cells fo) (steps r) @ [step_cells fo (last (steps ?r))]"
    by (subst hs(3)) simp
  finally have 2: "csv_reader (csv_text fo ?r)
      = [''Step Number'', ''Step Name'', ''Status'', ''Duration (seconds)'', ''Details'',
         ''Error Message'']
        # map (step_cells fo) (steps r) @ [step_cells fo (last (steps ?r))]"
    by (simp add: step_keys_def)
  have 3: "step_cells fo (last (steps ?r)) ! 0 = ''''" "step_cells fo (last (steps ?r)) ! 1 = ''SUMMARY''"
    by (simp_all add: summary_last step_cells_def)
  have 4: "csv_reader (csv_text fo r) = headers r # map (step_cells fo) (steps r)"
    by (simp add: csv_round_trip k dict_to_list_keys)
  have 5: "\<forall>ss ts. inj (frepr fo)
            \<and> list_all (\<lambda>s. reporter_number (step_number s)) ss
            \<and> list_all (\<lambda>s. reporter_number (step_number s)) ts
            \<and> csv_text fo (r\<lparr>steps := ss\<rparr>) = csv_text fo (r\<lparr>steps := ts\<rparr>)
          \<longrightarrow> ss = ts"
  proof (intro allI impI, elim conjE)
    fix ss ts :: "'d step list"
    assume i: "inj (frepr fo)"
      and a: "list_all (\<lambda>s. reporter_number (step_number s)) ss"
      and b: "list_all (\<lambda>s. reporter_number (step_number s)) ts"
      and e: "csv_text fo (r\<lparr>steps := ss\<rparr>) = csv_text fo (r\<lparr>steps := ts\<rparr>)"
    from arg_cong [OF e, of csv_reader]
    have "map (step_cells fo) ss = map (step_cells fo) ts"
      by (simp add: csv_round_trip k dict_to_list_keys_fun)
    with i a b show "ss = ts"
      by (rule steps_cells_inj)
  qed
  show "(let r' = add_summary fo r; summary = last (steps r') in
          generate_report fo None r' = Inr (csv_file r, csv_text fo r')
        \<and> csv_reader (csv_text fo r')
            = [''Step Number'', ''Step Name'', ''Status'', ''Duration (seconds)'',
               ''Details'', ''Error Message'']
              # map (step_cells fo) (steps r) @ [step_cells fo summary]
        \<and> step_cells fo summary ! 0 = '''' \<and> step_cells fo summary ! 1 = ''SUMMARY'')
     \<and> csv_reader (csv_text fo r) = headers r # map (step_cells fo) (steps r)
     \<and> (\<forall>ss ts. inj (frepr fo)
            \<and> list_all (\<lambda>s. reporter_number (step_number s)) ss
            \<and> list_all (\<lambda>s. reporter_number (step_number s)) ts
            \<and> csv_text fo (r\<lparr>steps := ss\<rparr>) = csv_text fo (r\<lparr>steps := ts\<rparr>)
          \<longrightarrow> ss = ts)"
    unfolding Let_def using 1 2 3 4 5 by blast
qed

theorem report_round_trip_witness:
  "headers failed_report = [''Step Number'', ''Step Name'', ''Status'', ''Duration (seconds)'',
                            ''Details'', ''Error Message'']
   \<and> csv_reader (csv_text centi_ops (add_summary centi_ops failed_report))
     = [[''Step Number'', ''Step Name'', ''Status'', ''Duration (seconds)'', ''Details'', ''Error Message''],
        [''0'', ''User Registration'', ''SUCCESS'', ''120'', ''ok'', ''''],
        [''1'', ''Logout After Registration'', ''FAILED'', ''35'',
         ''Failed to logout after registration'', ''Logout failed''],
        ['''', ''SUMMARY'', ''FAILED'', ''155'', ''Total: 2, Passed: 1, Failed: 1'', '''']]
   \<and> inj (frepr centi_ops)"
proof -
  have h: "headers failed_report = [''Step Number'', ''Step Name'', ''Status'', ''Duration (seconds)'',
                            ''Details'', ''Error Message'']"
    unfolding failed_report_def
    by (simp add: add_step_def empty_reporter_def)
  have s: "steps failed_report =
     [step_of_call centi_ops (0, ''User Registration'', ''SUCCESS'', 120, ''ok'', ''''),
      step_of_call centi_ops (1, ''Logout After Registration'', ''FAILED'', 35,
         ''Failed to logout after registration'', ''Logout failed'')]"
    unfolding failed_report_def steps_add_steps by (simp add: empty_reporter_def)
  note t = report_round_trip [of failed_report centi_ops, unfolded Let_def]
  from t h have r: "csv_reader (csv_text centi_ops (add_summary centi_ops failed_report))
      = [''Step Number'', ''Step Name'', ''Status'', ''Duration (seconds)'', ''Details'', ''Error Message'']
        # map (step_cells centi_ops) (steps failed_report)
        @ [step_cells centi_ops (last (steps (add_summary centi_ops failed_report)))]"
    by blast
  have n: "str_int 0 = ''0''" "str_int 1 = ''1''" "str_int 2 = ''2''"
    "str_int 120 = ''120''" "str_int 35 = ''35''" "str_int 155 = ''155''"
    by (simp_all add: str_int_def str_nat.simps digit_char_def)
  have c: "map (step_cells centi_ops) (steps failed_report)
      = [[''0'', ''User Registration'', ''SUCCESS'', ''120'', ''ok'', ''''],
         [''1'', ''Logout After Registration'', ''FAILED'', ''35'',
          ''Failed to logout after registration'', ''Logout failed'']]"
    by (simp add: s step_of_call_def step_cells_def centi_ops_def n)
  have m: "step_cells centi_ops (last (steps (add_summary centi_ops failed_report)))
      = ['''', ''SUMMARY'', ''FAILED'', ''155'', ''Total: 2, Passed: 1, Failed: 1'', '''']"
    by (simp add: summary_last s step_of_call_def step_cells_def centi_ops_def n)
  have i: "inj (frepr centi_ops)"
    by (simp add: centi_ops_def inj_def str_int_inj)
  show ?thesis
    using h r i by (simp add: c m)
qed

end
